theory Spec2Isabelle
  imports Main "HOL-Library.Sublist"
begin

section \<open>Data model (database.py)\<close>

text \<open>
  The four tables of \<^verbatim>\<open>database.py\<close>. A table is the list of its rows in insertion
  order. Columns that only feed message texts or timestamps (\<^verbatim>\<open>first_name\<close>,
  \<^verbatim>\<open>username\<close>, \<^verbatim>\<open>created_at\<close>, \<^verbatim>\<open>updated_at\<close>, \<^verbatim>\<open>password_hash\<close>) are left out; an
  \<^verbatim>\<open>Admin\<close> row is its primary key. \<^verbatim>\<open>Response.status\<close> is a \<^verbatim>\<open>String\<close> column and is
  kept as a string. Python integers are \<open>int\<close>.
\<close>

record user =
  telegram_id :: int
  is_active :: bool
  success_count :: int
  fail_count :: int

record task =
  tid :: int
  admin_telegram_id :: int
  photo_file_id :: string

record response =
  rid :: int
  user_telegram_id :: int
  task_id :: int
  status :: string
  moderation_message_id :: "int option"
  user_message_id :: "int option"

record database =
  users :: "user list"
  admins :: "int list"
  tasks :: "task list"
  responses :: "response list"

text \<open>\<^verbatim>\<open>session.get(User, id)\<close> and the lookups by primary key.\<close>

definition get_user :: "database \<Rightarrow> int \<Rightarrow> user option" where
  "get_user db uid = find (\<lambda>u. telegram_id u = uid) (users db)"

definition get_response :: "database \<Rightarrow> int \<Rightarrow> response option" where
  "get_response db i = find (\<lambda>r. rid r = i) (responses db)"

definition get_task :: "database \<Rightarrow> int \<Rightarrow> task option" where
  "get_task db i = find (\<lambda>t. tid t = i) (tasks db)"

text \<open>
  Writing a changed ORM object back (the \<^verbatim>\<open>UPDATE ... WHERE\<close> on the primary key that a
  flush issues for it).
\<close>

definition save_user :: "user \<Rightarrow> database \<Rightarrow> database" where
  "save_user u db =
     db\<lparr>users := map (\<lambda>v. if telegram_id v = telegram_id u then u else v) (users db)\<rparr>"

definition save_response :: "response \<Rightarrow> database \<Rightarrow> database" where
  "save_response r db =
     db\<lparr>responses := map (\<lambda>q. if rid q = rid r then r else q) (responses db)\<rparr>"

text \<open>
  An \<^verbatim>\<open>Integer\<close> primary key left unset is assigned by the store: one more than the
  largest key of the table (1 for an empty table).
\<close>

definition next_id :: "int list \<Rightarrow> int" where
  "next_id ids = fold max ids 0 + 1"

definition add_task :: "int \<Rightarrow> string \<Rightarrow> database \<Rightarrow> database" where
  "add_task admin_id photo db =
     db\<lparr>tasks := tasks db @
        [\<lparr>tid = next_id (map tid (tasks db)), admin_telegram_id = admin_id,
          photo_file_id = photo\<rparr>]\<rparr>"

definition add_response :: "int \<Rightarrow> int \<Rightarrow> string \<Rightarrow> int \<Rightarrow> database \<Rightarrow> database" where
  "add_response uid t st msg db =
     db\<lparr>responses := responses db @
        [\<lparr>rid = next_id (map rid (responses db)), user_telegram_id = uid, task_id = t,
          status = st, moderation_message_id = None, user_message_id = Some msg\<rparr>]\<rparr>"

section \<open>The environment of a unit of work\<close>

text \<open>
  What a call of the Telegram API can raise, as far as the handlers tell the cases apart:
  \<^verbatim>\<open>BadRequest\<close> (with its message) and \<^verbatim>\<open>Forbidden\<close> are subclasses of
  \<^verbatim>\<open>TelegramError\<close>; \<open>TelegramError\<close> stands for any other subclass, \<open>OtherException\<close>
  for an exception outside that hierarchy.
\<close>

datatype failure = BadRequest string | Forbidden | TelegramError | OtherException

datatype exn = ValueError | NameError | SQLAlchemyError | TelegramFailure failure

text \<open>
  The environment answers every call that leaves the process during one update:
  \<^item> \<open>send_photo chat\<close>: \<^verbatim>\<open>context.bot.send_photo\<close>, the message id on success;
  \<^item> \<open>send_message chat\<close>: \<^verbatim>\<open>context.bot.send_message\<close>;
  \<^item> \<open>edit_message\<close>: the edit of the message the callback query came from
    (\<^verbatim>\<open>query.edit_message_caption\<close>, \<^verbatim>\<open>edit_message_text\<close>, \<^verbatim>\<open>edit_message_reply_markup\<close>);
  \<^item> \<open>answer_query\<close>: \<^verbatim>\<open>query.answer()\<close>, the first call of a callback handler;
  \<^item> \<open>reply_text n\<close>: the \<open>n\<close>-th \<^verbatim>\<open>update.message.reply_text\<close> of the handler;
  \<^item> \<open>commit_ok n\<close>: whether the \<open>n\<close>-th \<^verbatim>\<open>session.commit()\<close> of the unit of work
    succeeds; a failing commit raises \<^verbatim>\<open>SQLAlchemyError\<close> and persists nothing;
  \<^item> \<open>redis_client\<close>: \<^verbatim>\<open>utils.redis_client\<close> is not \<^verbatim>\<open>None\<close>; \<open>setex_ok\<close>, \<open>exists_ok\<close>,
    \<open>delete_ok\<close>: the Redis command does not raise;
  \<^item> \<open>SLYOT_CANCEL_TIMEOUT_SECONDS\<close>: the configured time to live (\<^verbatim>\<open>config.py\<close>).
\<close>

record env =
  send_photo :: "int \<Rightarrow> failure + int"
  send_message :: "int \<Rightarrow> failure option"
  edit_message :: "failure option"
  answer_query :: "failure option"
  reply_text :: "nat \<Rightarrow> failure option"
  commit_ok :: "nat \<Rightarrow> bool"
  redis_client :: bool
  setex_ok :: bool
  exists_ok :: bool
  delete_ok :: bool
  SLYOT_CANCEL_TIMEOUT_SECONDS :: nat

text \<open>
  What a handler answers. \<open>Inl e\<close> in a handler's result says that exception \<open>e\<close> left
  the \<^verbatim>\<open>async with get_session()\<close> block (\<^verbatim>\<open>get_session\<close> rolled the session back) and
  reached the handler's \<^verbatim>\<open>except\<close> clauses.
\<close>

datatype reply =
    AccessDenied
  | PhotoMissing
  | BotPaused
  | NoActiveUsers
  | TaskSent int int int
  | ResponseNotFound
  | UserNotFound
  | TaskNotFound
  | AlreadyAnswered string
  | AlreadyProcessed string
  | NotConfirmed string
  | NotSlyot string
  | Confirmed
  | Rejected
  | MarkedSlyot
  | SlyotCanceled
  | SlyotCancelExpired
  | UnknownAction
  | AdminMenu
  | Registered
  | WelcomeBack
  | ProfileNotFound
  | StatusUnchanged
  | StatusUpdated

text \<open>
  A handler returns its answer and the history of the unit of work: every state of the
  database that a successful commit made durable, oldest first. The database after the
  handler is the last of them, or the one before the handler when nothing was committed.
\<close>

type_synonym outcome = "(exn + reply) \<times> database list"

definition final :: "database \<Rightarrow> database list \<Rightarrow> database" where
  "final db history = last (db # history)"

text \<open>
  Leaving the \<^verbatim>\<open>async with get_session()\<close> block without an exception runs the
  \<^verbatim>\<open>await session.commit()\<close> of \<^verbatim>\<open>get_session\<close>, here with nothing left to write.
\<close>

definition exit_commit :: "env \<Rightarrow> nat \<Rightarrow> reply \<Rightarrow> exn + reply" where
  "exit_commit env n r = (if commit_ok env n then Inr r else Inl SQLAlchemyError)"

definition replying :: "failure option \<Rightarrow> exn + reply \<Rightarrow> exn + reply" where
  "replying sent r = (case sent of None \<Rightarrow> r | Some f \<Rightarrow> Inl (TelegramFailure f))"

section \<open>The broadcast (handlers_admin.send_photo_execute)\<close>

definition BOT_ACTIVE_STATE_KEY :: string where
  "BOT_ACTIVE_STATE_KEY = ''is_bot_globally_active''"

definition is_bot_globally_active :: "(string \<rightharpoonup> bool) \<Rightarrow> bool" where
  "is_bot_globally_active bot_data =
     (case bot_data BOT_ACTIVE_STATE_KEY of None \<Rightarrow> True | Some v \<Rightarrow> v)"

definition set_bot_globally_active :: "(string \<rightharpoonup> bool) \<Rightarrow> bool \<Rightarrow> (string \<rightharpoonup> bool)" where
  "set_bot_globally_active bot_data active = bot_data(BOT_ACTIVE_STATE_KEY \<mapsto> active)"

text \<open>
  The loop over \<^verbatim>\<open>active_users\<close> (lines 163 to 192): the working copy of the database,
  \<^verbatim>\<open>sent_count\<close> and \<^verbatim>\<open>failed_count\<close> are threaded through. Nothing is committed inside
  the loop.
\<close>

fun send_to_users :: "env \<Rightarrow> int \<Rightarrow> user list \<Rightarrow> database \<times> int \<times> int \<Rightarrow> database \<times> int \<times> int"
  where
  "send_to_users env new_task_id [] acc = acc"
| "send_to_users env new_task_id (u # rest) (wdb, sent_count, failed_count) =
     (case send_photo env (telegram_id u) of
        Inr message_id \<Rightarrow>
          send_to_users env new_task_id rest
            (add_response (telegram_id u) new_task_id ''pending_user'' message_id wdb,
             sent_count + 1, failed_count)
      | Inl (BadRequest m) \<Rightarrow>
          send_to_users env new_task_id rest
            (save_user (u\<lparr>is_active := False\<rparr>) wdb, sent_count, failed_count + 1)
      | Inl Forbidden \<Rightarrow>
          send_to_users env new_task_id rest
            (save_user (u\<lparr>is_active := False\<rparr>) wdb, sent_count, failed_count + 1)
      | Inl TelegramError \<Rightarrow>
          send_to_users env new_task_id rest (wdb, sent_count, failed_count + 1)
      | Inl OtherException \<Rightarrow>
          send_to_users env new_task_id rest (wdb, sent_count, failed_count + 1))"

text \<open>The body of the \<^verbatim>\<open>async with get_session()\<close> block (lines 138 to 196).\<close>

definition send_photo_transaction :: "env \<Rightarrow> int \<Rightarrow> string \<Rightarrow> database \<Rightarrow> outcome" where
  "send_photo_transaction env admin_id photo db =
     (let new_task_id = next_id (map tid (tasks db));
          wdb = add_task admin_id photo db;
          active_users = filter is_active (users wdb)
      in if active_users = [] then
           (case reply_text env 0 of
              Some f \<Rightarrow> (Inl (TelegramFailure f), [])
            | None \<Rightarrow>
                if commit_ok env 0 then (exit_commit env 1 NoActiveUsers, [wdb])
                else (Inl SQLAlchemyError, []))
         else
           (case reply_text env 0 of
              Some f \<Rightarrow> (Inl (TelegramFailure f), [])
            | None \<Rightarrow>
                (case send_to_users env new_task_id active_users (wdb, 0, 0) of
                   (wdb', sent_count, failed_count) \<Rightarrow>
                     if commit_ok env 0 then
                       (replying (reply_text env 1)
                          (exit_commit env 1 (TaskSent new_task_id sent_count failed_count)),
                        [wdb'])
                     else (Inl SQLAlchemyError, []))))"

text \<open>
  The handler: \<^verbatim>\<open>@utils.admin_required\<close>, the check for the photo kept in
  \<^verbatim>\<open>context.user_data\<close>, the check of the global flag, then the transaction.
\<close>

definition send_photo_execute ::
  "env \<Rightarrow> (string \<rightharpoonup> bool) \<Rightarrow> string option \<Rightarrow> int \<Rightarrow> database \<Rightarrow> outcome" where
  "send_photo_execute env bot_data task_photo_file_id admin_id db =
     (if admin_id \<notin> set (admins db) then (Inr AccessDenied, [])
      else case task_photo_file_id of
        None \<Rightarrow> (replying (reply_text env 0) (Inr PhotoMissing), [])
      | Some photo \<Rightarrow>
          if \<not> is_bot_globally_active bot_data
          then (replying (reply_text env 0) (Inr BotPaused), [])
          else send_photo_transaction env admin_id photo db)"

section \<open>The reversal timer (utils.py)\<close>

text \<open>
  The Redis keys \<^verbatim>\<open>slyot_cancel:<response_id>\<close> with their remaining time to live in
  seconds, indexed by the response id (the key is the fixed prefix followed by the id).
  \<open>elapse\<close> is the passing of time on the server, which drops a key when its time is up.
  \<^verbatim>\<open>SETEX\<close> is refused by the server for a time to live of 0.
\<close>

type_synonym timers = "int \<rightharpoonup> nat"

definition elapse :: "nat \<Rightarrow> timers \<Rightarrow> timers" where
  "elapse seconds store =
     (\<lambda>k. case store k of None \<Rightarrow> None
          | Some ttl \<Rightarrow> if ttl \<le> seconds then None else Some (ttl - seconds))"

definition set_slyot_cancel_timer :: "env \<Rightarrow> int \<Rightarrow> timers \<Rightarrow> bool \<times> timers" where
  "set_slyot_cancel_timer env response_id store =
     (if redis_client env then
        (if setex_ok env \<and> 0 < SLYOT_CANCEL_TIMEOUT_SECONDS env
         then (True, store(response_id \<mapsto> SLYOT_CANCEL_TIMEOUT_SECONDS env))
         else (False, store))
      else (False, store))"

definition check_slyot_cancel_timer :: "env \<Rightarrow> int \<Rightarrow> timers \<Rightarrow> bool" where
  "check_slyot_cancel_timer env response_id store =
     (if redis_client env then
        (if exists_ok env then store response_id \<noteq> None else False)
      else False)"

definition clear_slyot_cancel_timer :: "env \<Rightarrow> int \<Rightarrow> timers \<Rightarrow> timers" where
  "clear_slyot_cancel_timer env response_id store =
     (if redis_client env then
        (if delete_ok env then store(response_id := None) else store)
      else store)"

section \<open>Callback actions (constants.py)\<close>

definition CALLBACK_USER_ACTION_PREFIX :: string where
  "CALLBACK_USER_ACTION_PREFIX = ''user_''"

definition CALLBACK_ADMIN_MODERATE_PREFIX :: string where
  "CALLBACK_ADMIN_MODERATE_PREFIX = ''admin_mod_''"

definition CALLBACK_ADMIN_SLYOT_PREFIX :: string where
  "CALLBACK_ADMIN_SLYOT_PREFIX = ''admin_slyot_''"

definition CB_USER_TASK_SUCCESS :: string where
  "CB_USER_TASK_SUCCESS = CALLBACK_USER_ACTION_PREFIX @ ''task_success''"

definition CB_ADMIN_CONFIRM :: string where
  "CB_ADMIN_CONFIRM = CALLBACK_ADMIN_MODERATE_PREFIX @ ''confirm_''"

definition CB_ADMIN_REJECT :: string where
  "CB_ADMIN_REJECT = CALLBACK_ADMIN_MODERATE_PREFIX @ ''reject_''"

definition CB_ADMIN_MARK_SLYOT :: string where
  "CB_ADMIN_MARK_SLYOT = CALLBACK_ADMIN_SLYOT_PREFIX @ ''mark_''"

definition CB_ADMIN_CANCEL_SLYOT :: string where
  "CB_ADMIN_CANCEL_SLYOT = CALLBACK_ADMIN_SLYOT_PREFIX @ ''cancel_''"

section \<open>Notifications after an operator's decision\<close>

text \<open>
  The notification of the recipient: \<^verbatim>\<open>try: await context.bot.send_message(user...)\<close>
  with \<^verbatim>\<open>except TelegramError\<close>, which logs. Only an exception outside the
  \<^verbatim>\<open>TelegramError\<close> hierarchy leaves the block.
\<close>

definition notify_user :: "env \<Rightarrow> int \<Rightarrow> reply \<Rightarrow> exn + reply" where
  "notify_user env chat r =
     (case send_message env chat of
        Some OtherException \<Rightarrow> Inl (TelegramFailure OtherException)
      | _ \<Rightarrow> Inr r)"

text \<open>
  The edit of the operator's message followed by the notification of the recipient.
  With \<open>tolerant\<close> (confirm and reject) a \<^verbatim>\<open>BadRequest\<close> is swallowed when its text
  contains \<^verbatim>\<open>message is not modified\<close> and raised again otherwise; without it (the slyot
  actions) a \<^verbatim>\<open>BadRequest\<close> is handled as any \<^verbatim>\<open>TelegramError\<close>: a message is sent to
  the operator instead, outside any \<^verbatim>\<open>try\<close>.
\<close>

definition announce :: "env \<Rightarrow> bool \<Rightarrow> int \<Rightarrow> int \<Rightarrow> reply \<Rightarrow> exn + reply" where
  "announce env tolerant admin_id user_id r =
     (case edit_message env of
        None \<Rightarrow> notify_user env user_id r
      | Some OtherException \<Rightarrow> Inl (TelegramFailure OtherException)
      | Some (BadRequest m) \<Rightarrow>
          if tolerant then
            (if sublist ''message is not modified'' m then notify_user env user_id r
             else Inl (TelegramFailure (BadRequest m)))
          else
            (case send_message env admin_id of
               None \<Rightarrow> notify_user env user_id r
             | Some g \<Rightarrow> Inl (TelegramFailure g))
      | Some f \<Rightarrow>
          (case send_message env admin_id of
             None \<Rightarrow> notify_user env user_id r
           | Some g \<Rightarrow> Inl (TelegramFailure g)))"

definition then_exit :: "env \<Rightarrow> nat \<Rightarrow> exn + reply \<Rightarrow> exn + reply" where
  "then_exit env n out = (case out of Inl e \<Rightarrow> Inl e | Inr r \<Rightarrow> exit_commit env n r)"

section \<open>The transaction of handle_admin_moderation\<close>

text \<open>
  The body of the \<^verbatim>\<open>async with get_session()\<close> block (lines 236 to 320), given the
  action and the response id that the handler has decoded from the callback data.
\<close>

definition admin_moderation_transaction ::
  "env \<Rightarrow> string \<Rightarrow> int \<Rightarrow> int \<Rightarrow> database \<Rightarrow> outcome" where
  "admin_moderation_transaction env action response_id admin_id db =
     (case get_response db response_id of
        None \<Rightarrow> (replying (edit_message env) (exit_commit env 0 ResponseNotFound), [])
      | Some response \<Rightarrow>
          (case get_user db (user_telegram_id response) of
             None \<Rightarrow> (replying (edit_message env) (exit_commit env 0 UserNotFound), [])
           | Some u \<Rightarrow>
               if status response \<notin> set [''success_pending_admin''] then
                 (replying (edit_message env)
                    (exit_commit env 0 (AlreadyProcessed (status response))), [])
               else if action = CB_ADMIN_CONFIRM then
                 (if commit_ok env 0 then
                    (then_exit env 1 (announce env True admin_id (telegram_id u) Confirmed),
                     [save_user (u\<lparr>success_count := success_count u + 1\<rparr>)
                        (save_response (response\<lparr>status := ''confirmed''\<rparr>) db)])
                  else (Inl SQLAlchemyError, []))
               else if action = CB_ADMIN_REJECT then
                 (if commit_ok env 0 then
                    (then_exit env 1 (announce env True admin_id (telegram_id u) Rejected),
                     [save_user (u\<lparr>fail_count := fail_count u + 1\<rparr>)
                        (save_response (response\<lparr>status := ''rejected''\<rparr>) db)])
                  else (Inl SQLAlchemyError, []))
               else (exit_commit env 0 UnknownAction, [])))"

section \<open>The transaction of handle_admin_slyot_action\<close>

text \<open>
  The body of the \<^verbatim>\<open>async with get_session()\<close> block (lines 353 to 450). Besides the
  answer and the history it returns the timers.
\<close>

definition admin_slyot_transaction ::
  "env \<Rightarrow> string \<Rightarrow> int \<Rightarrow> int \<Rightarrow> database \<Rightarrow> timers \<Rightarrow> outcome \<times> timers" where
  "admin_slyot_transaction env action response_id admin_id db store =
     (case get_response db response_id of
        None \<Rightarrow> ((replying (edit_message env) (exit_commit env 0 ResponseNotFound), []), store)
      | Some response \<Rightarrow>
          (case get_user db (user_telegram_id response) of
             None \<Rightarrow> ((replying (edit_message env) (exit_commit env 0 UserNotFound), []), store)
           | Some u \<Rightarrow>
               if action = CB_ADMIN_MARK_SLYOT then
                 (if status response \<noteq> ''confirmed'' then
                    ((replying (edit_message env)
                        (exit_commit env 0 (NotConfirmed (status response))), []), store)
                  else if \<not> commit_ok env 0 then ((Inl SQLAlchemyError, []), store)
                  else
                    (let db' = save_user
                           (u\<lparr>success_count := success_count u - 1,
                              fail_count := fail_count u + 1\<rparr>)
                           (save_response (response\<lparr>status := ''slyot''\<rparr>) db);
                         armed = set_slyot_cancel_timer env response_id store;
                         warned = (if fst armed then None else send_message env admin_id)
                     in case warned of
                          Some g \<Rightarrow> ((Inl (TelegramFailure g), [db']), snd armed)
                        | None \<Rightarrow>
                            ((then_exit env 1
                                (announce env False admin_id (telegram_id u) MarkedSlyot),
                              [db']), snd armed)))
               else if action = CB_ADMIN_CANCEL_SLYOT then
                 (if status response \<noteq> ''slyot'' then
                    ((replying (edit_message env)
                        (exit_commit env 0 (NotSlyot (status response))), []), store)
                  else if check_slyot_cancel_timer env response_id store then
                    (let store' = clear_slyot_cancel_timer env response_id store;
                         db' = save_user
                           (u\<lparr>fail_count := fail_count u - 1,
                              success_count := success_count u + 1\<rparr>)
                           (save_response (response\<lparr>status := ''confirmed''\<rparr>) db)
                     in if commit_ok env 0 then
                          ((then_exit env 1
                              (announce env False admin_id (telegram_id u) SlyotCanceled),
                            [db']), store')
                        else ((Inl SQLAlchemyError, []), store'))
                  else
                    ((replying (edit_message env) (exit_commit env 0 SlyotCancelExpired), []),
                     store))
               else ((exit_commit env 0 UnknownAction, []), store)))"

section \<open>The transaction of handle_user_task_response\<close>

text \<open>
  The body of the \<^verbatim>\<open>async with get_session()\<close> block (lines 78 to 163), given the action
  and the task id that the handler has decoded. \<^verbatim>\<open>scalar_one_or_none\<close> raises when more
  than one row matches. After the commit of \<^verbatim>\<open>success_pending_admin\<close> line 110 evaluates
  the name \<^verbatim>\<open>Admin\<close>, which \<^verbatim>\<open>handlers_user.py\<close> neither imports nor defines (line 8
  imports \<^verbatim>\<open>get_session, User, Response, Task\<close>): \<^verbatim>\<open>NameError\<close> is raised there, the
  session is rolled back with nothing pending, and lines 111 to 147 (the loop over the
  operators and the branch that writes \<^verbatim>\<open>pending_user\<close> back) are never run.
\<close>

definition user_task_transaction ::
  "env \<Rightarrow> string \<Rightarrow> int \<Rightarrow> int \<Rightarrow> database \<Rightarrow> outcome" where
  "user_task_transaction env action t user_id db =
     (case filter (\<lambda>r. user_telegram_id r = user_id \<and> task_id r = t) (responses db) of
        [] \<Rightarrow> (replying (edit_message env) (exit_commit env 0 ResponseNotFound), [])
      | [response] \<Rightarrow>
          if status response \<noteq> ''pending_user'' then
            (replying (edit_message env)
               (exit_commit env 0 (AlreadyAnswered (status response))), [])
          else
            (case get_task db t of
               None \<Rightarrow> (replying (edit_message env) (exit_commit env 0 TaskNotFound), [])
             | Some task \<Rightarrow>
                 if action = CB_USER_TASK_SUCCESS then
                   (if commit_ok env 0 then
                      (Inl NameError,
                       [save_response (response\<lparr>status := ''success_pending_admin''\<rparr>) db])
                    else (Inl SQLAlchemyError, []))
                 else (replying (edit_message env) (exit_commit env 0 UnknownAction), []))
      | _ \<Rightarrow> (Inl SQLAlchemyError, []))"

section \<open>Decoding the callback data\<close>

text \<open>
  \<^verbatim>\<open>s.split('_', maxsplit=2)\<close>: the string is cut at its first two underscores, into at
  most three parts.
\<close>

definition split_first :: "string \<Rightarrow> (string \<times> string) option" where
  "split_first s =
     (if CHR ''_'' \<in> set s
      then Some (takeWhile (\<lambda>c. c \<noteq> CHR ''_'') s, tl (dropWhile (\<lambda>c. c \<noteq> CHR ''_'') s))
      else None)"

definition split_maxsplit2 :: "string \<Rightarrow> string list" where
  "split_maxsplit2 s =
     (case split_first s of
        None \<Rightarrow> [s]
      | Some (a, rest) \<Rightarrow>
          (case split_first rest of
             None \<Rightarrow> [a, rest]
           | Some (b, c) \<Rightarrow> [a, b, c]))"

text \<open>
  Python's \<^verbatim>\<open>int\<close> on a string of ASCII characters: white space around an optional sign
  and decimal digits, with single underscores allowed between digits; \<open>None\<close> stands for
  \<^verbatim>\<open>ValueError\<close>.
\<close>

definition is_space :: "char \<Rightarrow> bool" where
  "is_space c \<longleftrightarrow>
     c \<in> set [CHR 0x09, CHR 0x0A, CHR 0x0B, CHR 0x0C, CHR 0x0D, CHR 0x1C, CHR 0x1D, CHR 0x1E,
              CHR 0x1F, CHR 0x20]"

definition is_digit :: "char \<Rightarrow> bool" where
  "is_digit c \<longleftrightarrow> c \<in> set ''0123456789''"

definition digit_value :: "char \<Rightarrow> int" where
  "digit_value c = int (of_char c) - 48"

fun py_digits :: "int \<Rightarrow> string \<Rightarrow> int option" where
  "py_digits acc [] = Some acc"
| "py_digits acc [c] = (if is_digit c then Some (acc * 10 + digit_value c) else None)"
| "py_digits acc (c # d # cs) =
     (if is_digit c then py_digits (acc * 10 + digit_value c) (d # cs)
      else if c = CHR ''_'' \<and> is_digit d then py_digits (acc * 10 + digit_value d) cs
      else None)"

definition py_unsigned :: "string \<Rightarrow> int option" where
  "py_unsigned s =
     (case s of [] \<Rightarrow> None | c # cs \<Rightarrow> if is_digit c then py_digits (digit_value c) cs else None)"

definition strip :: "string \<Rightarrow> string" where
  "strip s = rev (dropWhile is_space (rev (dropWhile is_space s)))"

definition py_int :: "string \<Rightarrow> int option" where
  "py_int s =
     (case strip s of
        [] \<Rightarrow> None
      | c # cs \<Rightarrow>
          if c = CHR ''-'' then map_option uminus (py_unsigned cs)
          else if c = CHR ''+'' then py_unsigned cs
          else py_unsigned (c # cs))"

text \<open>
  Lines 232 to 234 of \<^verbatim>\<open>handlers_admin.py\<close> (and 349 to 351): the unpacking into three
  names raises \<^verbatim>\<open>ValueError\<close> unless there are three parts; the third part is converted
  to the response id; the action is rebuilt from the first two parts.
\<close>

definition decode_admin_callback :: "string \<Rightarrow> exn + string \<times> int" where
  "decode_admin_callback callback_data =
     (case split_maxsplit2 callback_data of
        [head_part, action_part, response_id_str] \<Rightarrow>
          (case py_int response_id_str of
             None \<Rightarrow> Inl ValueError
           | Some response_id \<Rightarrow> Inr (head_part @ ''_'' @ action_part @ ''_'', response_id))
      | _ \<Rightarrow> Inl ValueError)"

text \<open>
  Lines 73 to 76 of \<^verbatim>\<open>handlers_user.py\<close>: the parts after the first must be two; the
  action is \<^verbatim>\<open>user_\<close> followed by the second part; the third part is converted to the
  task id.
\<close>

definition decode_user_callback :: "string \<Rightarrow> exn + string \<times> int" where
  "decode_user_callback callback_data =
     (case split_maxsplit2 callback_data of
        [head_part, action_part, task_id_str] \<Rightarrow>
          (case py_int task_id_str of
             None \<Rightarrow> Inl ValueError
           | Some t \<Rightarrow> Inr (CALLBACK_USER_ACTION_PREFIX @ action_part, t))
      | _ \<Rightarrow> Inl ValueError)"

text \<open>
  The callback data that \<^verbatim>\<open>keyboards.py\<close> puts on the buttons, for the decimal text of
  the task or response id.
\<close>

definition user_task_button :: "string \<Rightarrow> string" where
  "user_task_button id_text = CB_USER_TASK_SUCCESS @ ''_'' @ id_text"

definition admin_confirm_button :: "string \<Rightarrow> string" where
  "admin_confirm_button id_text = CB_ADMIN_CONFIRM @ id_text"

definition admin_reject_button :: "string \<Rightarrow> string" where
  "admin_reject_button id_text = CB_ADMIN_REJECT @ id_text"

definition admin_slyot_button :: "string \<Rightarrow> bool \<Rightarrow> string" where
  "admin_slyot_button id_text can_cancel =
     (if \<not> can_cancel then CB_ADMIN_MARK_SLYOT @ id_text
      else CB_ADMIN_CANCEL_SLYOT @ id_text)"

section \<open>The callback handlers\<close>

text \<open>
  Each handler as it is entered by the dispatcher: the decorator \<^verbatim>\<open>@utils.admin_required\<close> of
  the operator's handlers, \<^verbatim>\<open>query.answer()\<close>, the decoding inside the \<^verbatim>\<open>try\<close>, and the
  transaction. An exception of the decoding reaches the \<^verbatim>\<open>except\<close> clauses like any
  other.
\<close>

definition handle_admin_moderation :: "env \<Rightarrow> string \<Rightarrow> int \<Rightarrow> database \<Rightarrow> outcome" where
  "handle_admin_moderation env callback_data admin_id db =
     (if admin_id \<notin> set (admins db) then (Inr AccessDenied, [])
      else case answer_query env of
        Some f \<Rightarrow> (Inl (TelegramFailure f), [])
      | None \<Rightarrow>
          (case decode_admin_callback callback_data of
             Inl e \<Rightarrow> (Inl e, [])
           | Inr (action, response_id) \<Rightarrow>
               admin_moderation_transaction env action response_id admin_id db))"

definition handle_admin_slyot_action ::
  "env \<Rightarrow> string \<Rightarrow> int \<Rightarrow> database \<Rightarrow> timers \<Rightarrow> outcome \<times> timers" where
  "handle_admin_slyot_action env callback_data admin_id db store =
     (if admin_id \<notin> set (admins db) then ((Inr AccessDenied, []), store)
      else case answer_query env of
        Some f \<Rightarrow> ((Inl (TelegramFailure f), []), store)
      | None \<Rightarrow>
          (case decode_admin_callback callback_data of
             Inl e \<Rightarrow> ((Inl e, []), store)
           | Inr (action, response_id) \<Rightarrow>
               admin_slyot_transaction env action response_id admin_id db store))"

definition handle_user_task_response :: "env \<Rightarrow> string \<Rightarrow> int \<Rightarrow> database \<Rightarrow> outcome" where
  "handle_user_task_response env callback_data user_id db =
     (case answer_query env of
        Some f \<Rightarrow> (Inl (TelegramFailure f), [])
      | None \<Rightarrow>
          (case decode_user_callback callback_data of
             Inl e \<Rightarrow> (Inl e, [])
           | Inr (action, t) \<Rightarrow> user_task_transaction env action t user_id db))"

section \<open>Registration and opting in or out\<close>

text \<open>
  \<^verbatim>\<open>handlers_common.start\<close>: an operator gets the menu; an unknown user is inserted with the
  column defaults (active, both counters 0) and committed; a known user is greeted.
\<close>

definition start :: "env \<Rightarrow> int \<Rightarrow> database \<Rightarrow> outcome" where
  "start env user_id db =
     (if user_id \<in> set (admins db) then
        (replying (reply_text env 0) (exit_commit env 0 AdminMenu), [])
      else case get_user db user_id of
        None \<Rightarrow>
          if commit_ok env 0 then
            (replying (reply_text env 0) (replying (reply_text env 1) (exit_commit env 1 Registered)),
             [db\<lparr>users := users db @
                  [\<lparr>telegram_id = user_id, is_active = True, success_count = 0,
                    fail_count = 0\<rparr>]\<rparr>])
          else (Inl SQLAlchemyError, [])
      | Some u \<Rightarrow>
          (replying (reply_text env 0) (replying (reply_text env 1) (exit_commit env 0 WelcomeBack)),
           []))"

text \<open>
  \<^verbatim>\<open>handlers_user.toggle_user_bot_status\<close>, for the wish read from the button text
  (\<^verbatim>\<open>should_be_active\<close>).
\<close>

definition toggle_user_bot_status :: "env \<Rightarrow> bool \<Rightarrow> int \<Rightarrow> database \<Rightarrow> outcome" where
  "toggle_user_bot_status env should_be_active user_id db =
     (case get_user db user_id of
        None \<Rightarrow> (replying (reply_text env 0) (exit_commit env 0 ProfileNotFound), [])
      | Some u \<Rightarrow>
          if is_active u = should_be_active then
            (replying (reply_text env 0) (replying (reply_text env 1) (exit_commit env 0 StatusUnchanged)),
             [])
          else if commit_ok env 0 then
            (replying (reply_text env 0) (exit_commit env 1 StatusUpdated),
             [save_user (u\<lparr>is_active := should_be_active\<rparr>) db])
          else (Inl SQLAlchemyError, []))"

section \<open>Sequences of units of work\<close>

text \<open>
  The units of work that write the database or the timers, and the passing of time. Each
  runs in its own environment; a callback carries its data. \<open>run\<close> gives the history of
  one unit and the timers after it; \<open>execute\<close> runs a sequence from a database and gives
  every committed state in order.
\<close>

datatype event =
    SendTask "string \<rightharpoonup> bool" "string option" int
  | Answer string int
  | Moderate string int
  | Slyot string int
  | Start int
  | Toggle bool int
  | Elapse nat

fun run :: "env \<Rightarrow> event \<Rightarrow> database \<Rightarrow> timers \<Rightarrow> database list \<times> timers" where
  "run env (SendTask bot_data photo admin_id) db store =
     (snd (send_photo_execute env bot_data photo admin_id db), store)"
| "run env (Answer callback_data user_id) db store =
     (snd (handle_user_task_response env callback_data user_id db), store)"
| "run env (Moderate callback_data admin_id) db store =
     (snd (handle_admin_moderation env callback_data admin_id db), store)"
| "run env (Slyot callback_data admin_id) db store =
     (snd (fst (handle_admin_slyot_action env callback_data admin_id db store)),
      snd (handle_admin_slyot_action env callback_data admin_id db store))"
| "run env (Start user_id) db store = (snd (start env user_id db), store)"
| "run env (Toggle should_be_active user_id) db store =
     (snd (toggle_user_bot_status env should_be_active user_id db), store)"
| "run env (Elapse seconds) db store = ([], elapse seconds store)"

fun execute :: "(env \<times> event) list \<Rightarrow> database \<Rightarrow> timers \<Rightarrow> database list \<times> timers" where
  "execute [] db store = ([], store)"
| "execute ((env, e) # rest) db store =
     (case run env e db store of
        (h, store') \<Rightarrow>
          (case execute rest (final db h) store' of
             (h', store'') \<Rightarrow> (h @ h', store'')))"

section \<open>Vocabulary of the properties\<close>

text \<open>
  How the loop of \<^verbatim>\<open>send_photo_execute\<close> classifies a delivery: \<open>delivered\<close> when
  \<^verbatim>\<open>send_photo\<close> returned, \<open>permanent\<close> when it raised \<^verbatim>\<open>BadRequest\<close> or \<^verbatim>\<open>Forbidden\<close>
  (the clause that marks the user inactive).
\<close>

definition delivered :: "env \<Rightarrow> user \<Rightarrow> bool" where
  "delivered env u = (case send_photo env (telegram_id u) of Inr m \<Rightarrow> True | Inl f \<Rightarrow> False)"

definition permanent :: "env \<Rightarrow> user \<Rightarrow> bool" where
  "permanent env u =
     (case send_photo env (telegram_id u) of
        Inl (BadRequest m) \<Rightarrow> True | Inl Forbidden \<Rightarrow> True | _ \<Rightarrow> False)"

text \<open>A response row without its key and message ids: recipient, task, status.\<close>

definition core :: "response \<Rightarrow> int \<times> int \<times> string" where
  "core r = (user_telegram_id r, task_id r, status r)"

text \<open>The status of the response with the given id, if there is one.\<close>

definition status_of :: "database \<Rightarrow> int \<Rightarrow> string option" where
  "status_of db i = map_option status (get_response db i)"

text \<open>The transition table of the specification.\<close>

definition table_edge :: "string \<Rightarrow> string \<Rightarrow> bool" where
  "table_edge s s' \<longleftrightarrow>
     (s, s') \<in> set [(''pending_user'', ''success_pending_admin''),
                    (''success_pending_admin'', ''confirmed''),
                    (''success_pending_admin'', ''rejected''),
                    (''confirmed'', ''slyot''),
                    (''slyot'', ''confirmed'')]"

text \<open>
  Between two committed states every response row keeps its place and its key and either
  keeps its status or moves along an edge of \<open>E\<close>; rows are only added, at the end and in
  status \<^verbatim>\<open>pending_user\<close>.
\<close>

definition moves :: "(string \<Rightarrow> string \<Rightarrow> bool) \<Rightarrow> database \<Rightarrow> database \<Rightarrow> bool" where
  "moves E d d' \<longleftrightarrow>
     list_all2 (\<lambda>r r'. rid r' = rid r \<and> (status r' = status r \<or> E (status r) (status r')))
       (responses d) (take (length (responses d)) (responses d')) \<and>
     list_all (\<lambda>r'. status r' = ''pending_user'')
       (drop (length (responses d)) (responses d'))"

definition known :: "database \<Rightarrow> bool" where
  "known d \<longleftrightarrow>
     list_all (\<lambda>r. status r \<in> set [''pending_user'', ''success_pending_admin'', ''confirmed'',
                                     ''rejected'', ''slyot'']) (responses d)"

text \<open>
  Primary keys are unique and every response belongs to a user of the table (the foreign
  key of \<^verbatim>\<open>responses.user_telegram_id\<close>).
\<close>

definition keys_ok :: "database \<Rightarrow> bool" where
  "keys_ok d \<longleftrightarrow>
     distinct (map rid (responses d)) \<and> distinct (map telegram_id (users d)) \<and>
     list_all (\<lambda>r. user_telegram_id r \<in> set (map telegram_id (users d))) (responses d)"

text \<open>The number of responses of a recipient whose status is one of the given ones.\<close>

definition tally :: "database \<Rightarrow> int \<Rightarrow> string list \<Rightarrow> int" where
  "tally d uid sts =
     int (length (filter (\<lambda>r. user_telegram_id r = uid \<and> status r \<in> set sts) (responses d)))"

definition counters_ok :: "database \<Rightarrow> bool" where
  "counters_ok d \<longleftrightarrow>
     list_all (\<lambda>u. success_count u = tally d (telegram_id u) [''confirmed''] \<and>
                   fail_count u = tally d (telegram_id u) [''rejected'', ''slyot''])
       (users d)"

text \<open>What the invariant reads of a user: the key and the two counters.\<close>

definition counters :: "user \<Rightarrow> int \<times> int \<times> int" where
  "counters u = (telegram_id u, success_count u, fail_count u)"

section \<open>Concrete scenarios\<close>

text \<open>
  An environment in which every call succeeds, and a database with one operator (100)
  and three active recipients (1, 2, 3) who have no responses yet.
\<close>

definition calm :: env where
  "calm = \<lparr>send_photo = (\<lambda>chat. Inr (500 + chat)), send_message = (\<lambda>chat. None),
            edit_message = None, answer_query = None,
            reply_text = (\<lambda>n. None), commit_ok = (\<lambda>n. True),
            redis_client = True, setex_ok = True, exists_ok = True, delete_ok = True,
            SLYOT_CANCEL_TIMEOUT_SECONDS = 300\<rparr>"

definition fresh_user :: "int \<Rightarrow> user" where
  "fresh_user i = \<lparr>telegram_id = i, is_active = True, success_count = 0, fail_count = 0\<rparr>"

definition three_users :: database where
  "three_users = \<lparr>users = [fresh_user 1, fresh_user 2, fresh_user 3], admins = [100],
                    tasks = [], responses = []\<rparr>"

text \<open>The same environment, except that recipient 2 has blocked the bot.\<close>

definition blocked_by_2 :: env where
  "blocked_by_2 = calm\<lparr>send_photo := (\<lambda>chat. if chat = 2 then Inl Forbidden else Inr (500 + chat))\<rparr>"


text \<open>
  A database with one operator (100), one recipient (1) with the given counters, one task
  and one response (1) of the recipient to it, in the given status.
\<close>

definition scene :: "string \<Rightarrow> int \<Rightarrow> int \<Rightarrow> database" where
  "scene st s f =
     \<lparr>users = [\<lparr>telegram_id = 1, is_active = True, success_count = s, fail_count = f\<rparr>],
      admins = [100],
      tasks = [\<lparr>tid = 1, admin_telegram_id = 100, photo_file_id = ''photo''\<rparr>],
      responses = [\<lparr>rid = 1, user_telegram_id = 1, task_id = 1, status = st,
                    moderation_message_id = Some 7, user_message_id = Some 501\<rparr>]\<rparr>"

text \<open>The calm environment without a Redis client, and with a store that refuses commits.\<close>

definition redis_down :: env where
  "redis_down = calm\<lparr>redis_client := False\<rparr>"

definition commit_fails :: env where
  "commit_fails = calm\<lparr>commit_ok := (\<lambda>n. False)\<rparr>"

text \<open>
  The calm environment in which no photo or message can be sent and no message edited.
\<close>

definition mute :: env where
  "mute = calm\<lparr>send_photo := (\<lambda>chat. Inl TelegramError),
                 send_message := (\<lambda>chat. Some TelegramError),
                 edit_message := Some TelegramError\<rparr>"

section \<open>The fan-out loop\<close>

lemma loop_sent:
  "fst (snd (send_to_users env t us (wdb, s, f))) = s + int (length (filter (delivered env) us))"
  by (induction us arbitrary: wdb s f)
     (auto simp: delivered_def split: sum.splits failure.splits)

lemma loop_failed:
  "snd (snd (send_to_users env t us (wdb, s, f))) =
     f + int (length (filter (\<lambda>u. \<not> delivered env u) us))"
  by (induction us arbitrary: wdb s f)
     (auto simp: delivered_def split: sum.splits failure.splits)

lemma loop_tasks:
  "tasks (fst (send_to_users env t us (wdb, s, f))) = tasks wdb"
  by (induction us arbitrary: wdb s f)
     (auto simp: add_response_def save_user_def split: sum.splits failure.splits)

lemma loop_admins:
  "admins (fst (send_to_users env t us (wdb, s, f))) = admins wdb"
  by (induction us arbitrary: wdb s f)
     (auto simp: add_response_def save_user_def split: sum.splits failure.splits)

lemma loop_responses_core:
  "map core (responses (fst (send_to_users env t us (wdb, s, f)))) =
     map core (responses wdb) @
     map (\<lambda>u. (telegram_id u, t, ''pending_user'')) (filter (delivered env) us)"
  by (induction us arbitrary: wdb s f)
     (auto simp: add_response_def save_user_def core_def delivered_def
           split: sum.splits failure.splits)

lemma loop_responses_prefix:
  "prefix (responses wdb) (responses (fst (send_to_users env t us (wdb, s, f))))"
proof (induction us arbitrary: wdb s f)
  case Nil
  then show ?case by simp
next
  case (Cons u us)
  have added: "prefix (responses wdb)
      (responses (fst (send_to_users env t us (add_response a t st m wdb, s', f'))))" for a st m s' f'
  proof -
    have "prefix (responses wdb) (responses (add_response a t st m wdb))"
      by (simp add: add_response_def)
    then show ?thesis
      using Cons.IH [of "add_response a t st m wdb" s' f'] by (rule prefix_order.trans)
  qed
  have saved: "prefix (responses wdb)
      (responses (fst (send_to_users env t us (save_user v wdb, s', f'))))" for v s' f'
    using Cons.IH [of "save_user v wdb" s' f'] by (simp add: save_user_def)
  show ?case
    using added saved Cons.IH [of wdb]
    by (simp split: sum.splits failure.splits)
qed

lemma loop_users:
  "distinct (map telegram_id (users wdb)) \<Longrightarrow> set us \<subseteq> set (users wdb) \<Longrightarrow>
   distinct (map telegram_id us) \<Longrightarrow>
   users (fst (send_to_users env t us (wdb, s, f))) =
     map (\<lambda>v. if v \<in> set us \<and> permanent env v then v\<lparr>is_active := False\<rparr> else v) (users wdb)"
proof (induction us arbitrary: wdb s f)
  case Nil
  then show ?case by simp
next
  case (Cons u us)
  let ?u' = "u\<lparr>is_active := False\<rparr>"
  let ?w = "save_user ?u' wdb"
  have ids: "map telegram_id (users ?w) = map telegram_id (users wdb)"
    by (simp add: save_user_def comp_def cong: map_cong)
  have u_in: "u \<in> set (users wdb)" using Cons.prems by simp
  have uniq: "v \<in> set (users wdb) \<Longrightarrow> telegram_id v = telegram_id u \<Longrightarrow> v = u" for v
    using Cons.prems(1) u_in by (meson distinct_map inj_onD)
  have rest_ne: "telegram_id v \<noteq> telegram_id u" if "v \<in> set us" for v
  proof
    assume "telegram_id v = telegram_id u"
    with that have "telegram_id u \<in> telegram_id ` set us" by (metis imageI)
    with Cons.prems(3) show False by simp
  qed
  have sub: "set us \<subseteq> set (users ?w)"
    using Cons.prems(2) rest_ne by (auto simp: save_user_def)
  have perm: "users (fst (send_to_users env t us (?w, s', f'))) =
     map (\<lambda>v. if v \<in> set us \<and> permanent env v then v\<lparr>is_active := False\<rparr> else v) (users ?w)" for s' f'
    using Cons.IH [of ?w s' f'] ids sub Cons.prems by simp
  have keep: "users (fst (send_to_users env t us (wdb, s', f'))) =
     map (\<lambda>v. if v \<in> set us \<and> permanent env v then v\<lparr>is_active := False\<rparr> else v) (users wdb)" for s' f'
    using Cons.IH [of wdb s' f'] Cons.prems by simp
  have u'_notin: "?u' \<notin> set us" using rest_ne by force
  show ?case
  proof (cases "permanent env u")
    case True
    then have "users (fst (send_to_users env t (u # us) (wdb, s, f))) =
       users (fst (send_to_users env t us (?w, s, f + 1)))"
      by (auto simp: permanent_def split: sum.splits failure.splits)
    also have "\<dots> = map (\<lambda>v. if v \<in> set us \<and> permanent env v then v\<lparr>is_active := False\<rparr> else v) (users ?w)"
      by (rule perm)
    also have "\<dots> = map (\<lambda>v. if v \<in> set (u # us) \<and> permanent env v then v\<lparr>is_active := False\<rparr> else v) (users wdb)"
      using True uniq u'_notin by (auto simp: save_user_def)
    finally show ?thesis .
  next
    case False
    have add_users: "users (add_response a t st m wdb) = users wdb" for a st m
      by (simp add: add_response_def)
    have added: "users (fst (send_to_users env t us (add_response a t st m wdb, s', f'))) =
       map (\<lambda>v. if v \<in> set us \<and> permanent env v then v\<lparr>is_active := False\<rparr> else v) (users wdb)"
      for a st m s' f'
      using Cons.IH [of "add_response a t st m wdb" s' f'] Cons.prems add_users by simp
    from False have "users (fst (send_to_users env t (u # us) (wdb, s, f))) =
       map (\<lambda>v. if v \<in> set us \<and> permanent env v then v\<lparr>is_active := False\<rparr> else v) (users wdb)"
      by (auto simp: permanent_def added keep split: sum.splits failure.splits)
    also have "\<dots> = map (\<lambda>v. if v \<in> set (u # us) \<and> permanent env v then v\<lparr>is_active := False\<rparr> else v) (users wdb)"
      using False by auto
    finally show ?thesis .
  qed
qed

section \<open>The broadcast\<close>

text \<open>
  Claim C6. A broadcast by an operator while the bot is active, whose announcement to the
  operator (the first \<^verbatim>\<open>reply_text\<close>) and whose commit succeed, makes exactly one state
  durable. In it the Task row has been appended; the responses are the old ones followed
  by exactly one \<^verbatim>\<open>pending_user\<close> response for each active recipient whose delivery
  succeeded, in order; exactly the active recipients whose delivery raised \<^verbatim>\<open>BadRequest\<close>
  or \<^verbatim>\<open>Forbidden\<close> have become inactive; \<^verbatim>\<open>sent_count\<close> is the number of deliveries
  that succeeded and \<^verbatim>\<open>failed_count\<close> the number of all others, so every active recipient
  is counted once and no failure ends the loop. Primary keys of users are distinct.
\<close>

theorem broadcast_accounting:
  assumes adm: "admin_id \<in> set (admins db)"
    and act: "is_bot_globally_active bot_data"
    and pk: "distinct (map telegram_id (users db))"
    and r0: "reply_text env 0 = None"
    and c0: "commit_ok env 0"
  shows "(let out = send_photo_execute env bot_data (Some photo) admin_id db;
              d = final db (snd out);
              t = next_id (map tid (tasks db));
              active_users = filter is_active (users db)
          in length (snd out) = 1 \<and>
             tasks d = tasks db @ [\<lparr>tid = t, admin_telegram_id = admin_id, photo_file_id = photo\<rparr>] \<and>
             prefix (responses db) (responses d) \<and>
             map core (responses d) = map core (responses db) @
               map (\<lambda>u. (telegram_id u, t, ''pending_user'')) (filter (delivered env) active_users) \<and>
             users d = map (\<lambda>u. if is_active u \<and> permanent env u then u\<lparr>is_active := False\<rparr> else u) (users db) \<and>
             fst out =
               (if active_users = [] then exit_commit env 1 NoActiveUsers
                else replying (reply_text env 1) (exit_commit env 1
                  (TaskSent t (int (length (filter (delivered env) active_users)))
                     (int (length (filter (\<lambda>u. \<not> delivered env u) active_users)))))))"
proof -
  let ?t = "next_id (map tid (tasks db))"
  let ?w = "add_task admin_id photo db"
  let ?us = "filter is_active (users db)"
  let ?loop = "send_to_users env ?t ?us (?w, 0, 0)"
  have w_users: "users ?w = users db" and w_resp: "responses ?w = responses db"
    and w_tasks: "tasks ?w = tasks db @ [\<lparr>tid = ?t, admin_telegram_id = admin_id, photo_file_id = photo\<rparr>]"
    by (simp_all add: add_task_def)
  obtain wdb' s f where loop: "?loop = (wdb', s, f)" by (metis prod_cases3)
  have wdb': "wdb' = fst ?loop" and s: "s = fst (snd ?loop)" and f: "f = snd (snd ?loop)"
    using loop by simp_all
  have exec: "send_photo_execute env bot_data (Some photo) admin_id db =
      (if ?us = [] then (exit_commit env 1 NoActiveUsers, [?w])
       else (replying (reply_text env 1) (exit_commit env 1 (TaskSent ?t s f)), [wdb']))"
    using adm act r0 c0 loop
    by (simp add: send_photo_execute_def send_photo_transaction_def Let_def w_users)
  have empty: "?us = [] \<Longrightarrow> wdb' = ?w" using loop by simp
  have hist: "snd (send_photo_execute env bot_data (Some photo) admin_id db) = [wdb']"
    using exec empty by auto
  have d: "final db (snd (send_photo_execute env bot_data (Some photo) admin_id db)) = wdb'"
    using hist by (simp add: final_def)
  have 1: "tasks wdb' = tasks db @ [\<lparr>tid = ?t, admin_telegram_id = admin_id, photo_file_id = photo\<rparr>]"
    unfolding wdb' by (simp add: loop_tasks w_tasks)
  have 2: "prefix (responses db) (responses wdb')"
    unfolding wdb' using loop_responses_prefix [of ?w env ?t ?us 0 0] by (simp add: w_resp)
  have 3: "map core (responses wdb') = map core (responses db) @
      map (\<lambda>u. (telegram_id u, ?t, ''pending_user'')) (filter (delivered env) ?us)"
    unfolding wdb' by (simp add: loop_responses_core w_resp)
  have "distinct (map telegram_id ?us)" using pk by (simp add: distinct_map_filter)
  then have "users wdb' =
      map (\<lambda>v. if v \<in> set ?us \<and> permanent env v then v\<lparr>is_active := False\<rparr> else v) (users db)"
    unfolding wdb' using pk loop_users [of ?w ?us env ?t 0 0] by (simp add: w_users)
  then have 4: "users wdb' =
      map (\<lambda>u. if is_active u \<and> permanent env u then u\<lparr>is_active := False\<rparr> else u) (users db)"
    by (auto cong: map_cong)
  have 5: "s = int (length (filter (delivered env) ?us))"
    unfolding s by (simp add: loop_sent)
  have 6: "f = int (length (filter (\<lambda>u. \<not> delivered env u) ?us))"
    unfolding f by (simp add: loop_failed)
  show ?thesis
    unfolding Let_def hist using 1 2 3 4 exec 5 6 by (simp add: final_def)
qed

text \<open>
  Three active recipients, the second of whom has blocked the bot: two responses (for 1
  and 3), \<^verbatim>\<open>sent_count = 2\<close>, \<^verbatim>\<open>failed_count = 1\<close>, recipient 2 inactive, the task stored.
\<close>

theorem broadcast_accounting_witness:
  "(let out = send_photo_execute blocked_by_2 Map.empty (Some ''photo'') 100 three_users;
        d = final three_users (snd out)
    in fst out = Inr (TaskSent 1 2 1) \<and> length (tasks d) = 1 \<and>
       map core (responses d) = [(1, 1, ''pending_user''), (3, 1, ''pending_user'')] \<and>
       map is_active (users d) = [True, False, True])"
proof -
  have adm: "100 \<in> set (admins three_users)" by (simp add: three_users_def)
  have act: "is_bot_globally_active Map.empty" by (simp add: is_bot_globally_active_def)
  have pk: "distinct (map telegram_id (users three_users))"
    by (simp add: three_users_def fresh_user_def)
  have r0: "reply_text blocked_by_2 0 = None" by (simp add: blocked_by_2_def calm_def)
  have c0: "commit_ok blocked_by_2 0" by (simp add: blocked_by_2_def calm_def)
  show ?thesis
    using broadcast_accounting [OF adm act pk r0 c0, of "''photo''"]
    by (simp add: Let_def three_users_def fresh_user_def blocked_by_2_def calm_def
          delivered_def permanent_def next_id_def exit_commit_def replying_def)
qed

text \<open>
  Claim C7. The global flag is read as true when it was never set. When it is false,
  \<^verbatim>\<open>send_photo_execute\<close> commits nothing, whatever the photo and the caller: no Task row
  and no Response row is created; called by an operator with a photo, its answer is the
  pause notice (or the failure of sending that notice).
\<close>

theorem paused_creates_nothing:
  assumes "\<not> is_bot_globally_active bot_data"
  shows "is_bot_globally_active Map.empty \<and>
         snd (send_photo_execute env bot_data task_photo_file_id admin_id db) = [] \<and>
         final db (snd (send_photo_execute env bot_data task_photo_file_id admin_id db)) = db \<and>
         fst (send_photo_execute env bot_data (Some photo) admin_id db) =
           (if admin_id \<in> set (admins db) then replying (reply_text env 0) (Inr BotPaused)
            else Inr AccessDenied)"
  using assms
  by (simp add: send_photo_execute_def is_bot_globally_active_def final_def split: option.splits)

theorem paused_creates_nothing_witness:
  "\<not> is_bot_globally_active (set_bot_globally_active Map.empty False) \<and>
   send_photo_execute calm (set_bot_globally_active Map.empty False) (Some ''photo'') 100 three_users =
     (Inr BotPaused, [])"
proof -
  have off: "\<not> is_bot_globally_active (set_bot_globally_active Map.empty False)"
    by (simp add: is_bot_globally_active_def set_bot_globally_active_def)
  show ?thesis
    using off paused_creates_nothing [OF off, of calm "Some ''photo''" 100 three_users "''photo''"]
    by (simp add: three_users_def calm_def replying_def prod_eq_iff)
qed

section \<open>What the decoding can produce\<close>

text \<open>
  The action that a callback handler rebuilds holds exactly two underscores in the
  operator's handlers and exactly one in the user's, while the constants it is compared
  with hold three and two: no callback data select a branch that writes.
\<close>

lemma split_first_clean: "split_first s = Some (a, b) \<Longrightarrow> CHR ''_'' \<notin> set a"
  by (auto simp: split_first_def split: if_splits dest: set_takeWhileD)

lemma count_clean: "x \<notin> set xs \<Longrightarrow> count_list xs x = 0"
  by (induction xs) auto

lemma count_append: "count_list (xs @ ys) x = count_list xs x + count_list ys x"
  by (induction xs) auto

lemma decode_admin_two_underscores:
  assumes "decode_admin_callback callback_data = Inr (action, i)"
  shows "count_list action CHR ''_'' = 2"
proof -
  from assms obtain p rest q r where sp: "split_first callback_data = Some (p, rest)"
    "split_first rest = Some (q, r)" and act: "action = p @ ''_'' @ q @ ''_''"
    by (auto simp: decode_admin_callback_def split_maxsplit2_def
          split: option.splits list.splits)
  have "CHR ''_'' \<notin> set p" "CHR ''_'' \<notin> set q"
    using sp by (auto dest: split_first_clean)
  then show ?thesis by (simp add: act count_append count_clean)
qed

lemma decode_user_one_underscore:
  assumes "decode_user_callback callback_data = Inr (action, t)"
  shows "count_list action CHR ''_'' = 1"
proof -
  from assms obtain p rest q r where sp: "split_first callback_data = Some (p, rest)"
    "split_first rest = Some (q, r)" and act: "action = ''user_'' @ q"
    by (auto simp: decode_user_callback_def split_maxsplit2_def CALLBACK_USER_ACTION_PREFIX_def
          split: option.splits list.splits)
  have "CHR ''_'' \<notin> set q"
    using sp by (auto dest: split_first_clean)
  then show ?thesis by (simp add: act count_clean)
qed

lemma underscores_of_actions:
  "count_list CB_ADMIN_CONFIRM CHR ''_'' = 3" "count_list CB_ADMIN_REJECT CHR ''_'' = 3"
  "count_list CB_ADMIN_MARK_SLYOT CHR ''_'' = 3" "count_list CB_ADMIN_CANCEL_SLYOT CHR ''_'' = 3"
  "count_list CB_USER_TASK_SUCCESS CHR ''_'' = 2"
  by (simp_all add: CB_ADMIN_CONFIRM_def CB_ADMIN_REJECT_def CB_ADMIN_MARK_SLYOT_def
        CB_ADMIN_CANCEL_SLYOT_def CB_USER_TASK_SUCCESS_def CALLBACK_ADMIN_MODERATE_PREFIX_def
        CALLBACK_ADMIN_SLYOT_PREFIX_def CALLBACK_USER_ACTION_PREFIX_def)

lemma decode_admin_never_an_action:
  assumes "decode_admin_callback callback_data = Inr (action, i)"
  shows "action \<noteq> CB_ADMIN_CONFIRM" "action \<noteq> CB_ADMIN_REJECT"
    "action \<noteq> CB_ADMIN_MARK_SLYOT" "action \<noteq> CB_ADMIN_CANCEL_SLYOT"
  using decode_admin_two_underscores [OF assms] underscores_of_actions by auto

lemma decode_user_never_success:
  assumes "decode_user_callback callback_data = Inr (action, t)"
  shows "action \<noteq> CB_USER_TASK_SUCCESS"
  using decode_user_one_underscore [OF assms] underscores_of_actions by auto

lemma moderation_other_action:
  "action \<noteq> CB_ADMIN_CONFIRM \<Longrightarrow> action \<noteq> CB_ADMIN_REJECT \<Longrightarrow>
   snd (admin_moderation_transaction env action i a db) = [] \<and>
   fst (admin_moderation_transaction env action i a db) \<noteq> Inr Confirmed \<and>
   fst (admin_moderation_transaction env action i a db) \<noteq> Inr Rejected"
  by (auto simp: admin_moderation_transaction_def replying_def exit_commit_def
        split: option.splits)

lemma slyot_other_action:
  "action \<noteq> CB_ADMIN_MARK_SLYOT \<Longrightarrow> action \<noteq> CB_ADMIN_CANCEL_SLYOT \<Longrightarrow>
   admin_slyot_transaction env action i a db store =
     ((fst (fst (admin_slyot_transaction env action i a db store)), []), store) \<and>
   fst (fst (admin_slyot_transaction env action i a db store)) \<noteq> Inr MarkedSlyot \<and>
   fst (fst (admin_slyot_transaction env action i a db store)) \<noteq> Inr SlyotCanceled"
  by (auto simp: admin_slyot_transaction_def replying_def exit_commit_def
        split: option.splits)

lemma user_other_action:
  "action \<noteq> CB_USER_TASK_SUCCESS \<Longrightarrow> snd (user_task_transaction env action t uid db) = []"
  by (auto simp: user_task_transaction_def split: option.splits list.splits)

lemma moderation_commits_nothing:
  "snd (handle_admin_moderation env callback_data a db) = [] \<and>
   fst (handle_admin_moderation env callback_data a db) \<noteq> Inr Confirmed \<and>
   fst (handle_admin_moderation env callback_data a db) \<noteq> Inr Rejected"
  using decode_admin_never_an_action(1,2) [of callback_data] moderation_other_action
  by (auto simp: handle_admin_moderation_def split: option.splits sum.splits)

lemma slyot_commits_nothing:
  "snd (fst (handle_admin_slyot_action env callback_data a db store)) = [] \<and>
   snd (handle_admin_slyot_action env callback_data a db store) = store \<and>
   fst (fst (handle_admin_slyot_action env callback_data a db store)) \<noteq> Inr MarkedSlyot \<and>
   fst (fst (handle_admin_slyot_action env callback_data a db store)) \<noteq> Inr SlyotCanceled"
proof (cases "decode_admin_callback callback_data")
  case (Inl e)
  then show ?thesis by (simp add: handle_admin_slyot_action_def split: option.splits)
next
  case (Inr x)
  obtain action i where x: "x = (action, i)" by (cases x)
  note no = decode_admin_never_an_action(3,4) [OF Inr [unfolded x]]
  from slyot_other_action [OF no, of env i a db store]
  have "snd (fst (admin_slyot_transaction env action i a db store)) = []"
    "snd (admin_slyot_transaction env action i a db store) = store"
    "fst (fst (admin_slyot_transaction env action i a db store)) \<noteq> Inr MarkedSlyot"
    "fst (fst (admin_slyot_transaction env action i a db store)) \<noteq> Inr SlyotCanceled"
    by (metis snd_conv fst_conv)+
  then show ?thesis
    using Inr x by (simp add: handle_admin_slyot_action_def split: option.splits)
qed

lemma answer_commits_nothing:
  "snd (handle_user_task_response env callback_data uid db) = []"
  using decode_user_never_success [of callback_data] user_other_action
  by (auto simp: handle_user_task_response_def split: option.splits sum.splits)

section \<open>The data of the buttons\<close>

text \<open>
  The text after the second underscore of the data that \<^verbatim>\<open>keyboards.py\<close> puts on a
  button starts with a letter, so \<^verbatim>\<open>int\<close> raises \<^verbatim>\<open>ValueError\<close> on it.
\<close>

lemma strip_keeps_head: "\<not> is_space c \<Longrightarrow> \<exists>ys. strip (c # s) = c # ys"
proof -
  assume c: "\<not> is_space c"
  then have "dropWhile is_space (rev (c # s)) = dropWhile is_space (rev s) @ [c]"
    by (simp add: dropWhile_append3)
  with c show ?thesis by (simp add: strip_def)
qed

lemma py_int_of_word:
  assumes "\<not> is_space c" "\<not> is_digit c" "c \<noteq> CHR ''-''" "c \<noteq> CHR ''+''"
  shows "py_int (c # s) = None"
proof -
  from strip_keeps_head [OF assms(1), of s] obtain ys where "strip (c # s) = c # ys" by blast
  with assms show ?thesis by (simp add: py_int_def py_unsigned_def)
qed

lemma letters:
  "\<not> is_space CHR ''c''" "\<not> is_digit CHR ''c''" "\<not> is_space CHR ''r''" "\<not> is_digit CHR ''r''"
  "\<not> is_space CHR ''m''" "\<not> is_digit CHR ''m''" "\<not> is_space CHR ''s''" "\<not> is_digit CHR ''s''"
  by (simp_all add: is_space_def is_digit_def)

lemma buttons_raise:
  "decode_admin_callback (admin_confirm_button id_text) = Inl ValueError"
  "decode_admin_callback (admin_reject_button id_text) = Inl ValueError"
  "decode_admin_callback (admin_slyot_button id_text can_cancel) = Inl ValueError"
  "decode_user_callback (user_task_button id_text) = Inl ValueError"
  by (simp_all add: decode_admin_callback_def decode_user_callback_def split_maxsplit2_def
        split_first_def admin_confirm_button_def admin_reject_button_def admin_slyot_button_def
        user_task_button_def CB_ADMIN_CONFIRM_def CB_ADMIN_REJECT_def CB_ADMIN_MARK_SLYOT_def
        CB_ADMIN_CANCEL_SLYOT_def CB_USER_TASK_SUCCESS_def CALLBACK_ADMIN_MODERATE_PREFIX_def
        CALLBACK_ADMIN_SLYOT_PREFIX_def CALLBACK_USER_ACTION_PREFIX_def py_int_of_word letters)


lemma slyot_never_expired:
  "fst (fst (handle_admin_slyot_action env callback_data a db store)) \<noteq> Inr SlyotCancelExpired"
proof (cases "decode_admin_callback callback_data")
  case (Inl e)
  then show ?thesis by (simp add: handle_admin_slyot_action_def split: option.splits)
next
  case (Inr x)
  obtain action i where x: "x = (action, i)" by (cases x)
  note no = decode_admin_never_an_action(3,4) [OF Inr [unfolded x]]
  have "fst (fst (admin_slyot_transaction env action i a db store)) \<noteq> Inr SlyotCancelExpired"
    using no by (auto simp: admin_slyot_transaction_def replying_def exit_commit_def
        split: option.splits)
  then show ?thesis
    using Inr x by (simp add: handle_admin_slyot_action_def split: option.splits)
qed

lemma slyot_button_raises:
  "handle_admin_slyot_action env (admin_slyot_button id_text can_cancel) a db store =
     ((if a \<in> set (admins db)
       then (case answer_query env of None \<Rightarrow> Inl ValueError | Some f \<Rightarrow> Inl (TelegramFailure f))
       else Inr AccessDenied, []), store)"
  by (simp add: handle_admin_slyot_action_def buttons_raise split: option.splits)

section \<open>Refusals\<close>



section \<open>Notifications and committed statuses\<close>

text \<open>
  Claim C4. Every callback handler, and every transaction block for any action and id it
  is entered with, commits at most once, so a committed status is never written back;
  and what a transaction block commits does not depend on whether sending a photo,
  sending a message or editing a message succeeds. With every notification failing, the
  blocks entered with the success, confirm, reject, mark and cancel actions on response 1
  in the status each of them expects commit the new status (and counters), and end with
  the exception.
\<close>

theorem committed_status_is_final:
  "length (snd (handle_user_task_response env callback_data uid db)) \<le> 1 \<and>
   length (snd (handle_admin_moderation env callback_data a db)) \<le> 1 \<and>
   length (snd (fst (handle_admin_slyot_action env callback_data a db store))) \<le> 1 \<and>
   length (snd (user_task_transaction env action t uid db)) \<le> 1 \<and>
   length (snd (admin_moderation_transaction env action i a db)) \<le> 1 \<and>
   length (snd (fst (admin_slyot_transaction env action i a db store))) \<le> 1 \<and>
   snd (user_task_transaction (env\<lparr>send_photo := sp, send_message := sm, edit_message := em\<rparr>)
          action t uid db) = snd (user_task_transaction env action t uid db) \<and>
   snd (admin_moderation_transaction (env\<lparr>send_photo := sp, send_message := sm, edit_message := em\<rparr>)
          action i a db) = snd (admin_moderation_transaction env action i a db) \<and>
   snd (fst (admin_slyot_transaction (env\<lparr>send_photo := sp, send_message := sm, edit_message := em\<rparr>)
          action i a db store)) = snd (fst (admin_slyot_transaction env action i a db store)) \<and>
   user_task_transaction mute CB_USER_TASK_SUCCESS 1 1 (scene ''pending_user'' 0 0) =
     (Inl NameError, [scene ''success_pending_admin'' 0 0]) \<and>
   admin_moderation_transaction mute CB_ADMIN_CONFIRM 1 100 (scene ''success_pending_admin'' 0 0) =
     (Inl (TelegramFailure TelegramError), [scene ''confirmed'' 1 0]) \<and>
   admin_moderation_transaction mute CB_ADMIN_REJECT 1 100 (scene ''success_pending_admin'' 0 0) =
     (Inl (TelegramFailure TelegramError), [scene ''rejected'' 0 1]) \<and>
   admin_slyot_transaction mute CB_ADMIN_MARK_SLYOT 1 100 (scene ''confirmed'' 1 0) Map.empty =
     ((Inl (TelegramFailure TelegramError), [scene ''slyot'' 0 1]), [1 \<mapsto> 300]) \<and>
   admin_slyot_transaction mute CB_ADMIN_CANCEL_SLYOT 1 100 (scene ''slyot'' 0 1) [1 \<mapsto> 300] =
     ((Inl (TelegramFailure TelegramError), [scene ''confirmed'' 1 0]), Map.empty)"
proof -
  have 1: "length (snd (handle_user_task_response env callback_data uid db)) \<le> 1"
    by (simp add: answer_commits_nothing)
  have 2: "length (snd (handle_admin_moderation env callback_data a db)) \<le> 1"
    by (simp add: moderation_commits_nothing)
  have 3: "length (snd (fst (handle_admin_slyot_action env callback_data a db store))) \<le> 1"
    by (simp add: slyot_commits_nothing)
  have 4: "length (snd (user_task_transaction env action t uid db)) \<le> 1"
    by (simp add: user_task_transaction_def split: list.splits option.splits)
  have 5: "length (snd (admin_moderation_transaction env action i a db)) \<le> 1"
    by (simp add: admin_moderation_transaction_def split: option.splits)
  have 6: "length (snd (fst (admin_slyot_transaction env action i a db store))) \<le> 1"
    by (simp add: admin_slyot_transaction_def Let_def split: option.splits)
  have 7: "snd (user_task_transaction (env\<lparr>send_photo := sp, send_message := sm, edit_message := em\<rparr>)
          action t uid db) = snd (user_task_transaction env action t uid db)"
    by (simp add: user_task_transaction_def split: list.splits option.splits)
  have 8: "snd (admin_moderation_transaction (env\<lparr>send_photo := sp, send_message := sm, edit_message := em\<rparr>)
          action i a db) = snd (admin_moderation_transaction env action i a db)"
    by (simp add: admin_moderation_transaction_def split: option.splits)
  have 9: "snd (fst (admin_slyot_transaction (env\<lparr>send_photo := sp, send_message := sm, edit_message := em\<rparr>)
          action i a db store)) = snd (fst (admin_slyot_transaction env action i a db store))"
    by (simp add: admin_slyot_transaction_def Let_def set_slyot_cancel_timer_def
          check_slyot_cancel_timer_def clear_slyot_cancel_timer_def split: option.splits)
  have 10: "user_task_transaction mute CB_USER_TASK_SUCCESS 1 1 (scene ''pending_user'' 0 0) =
     (Inl NameError, [scene ''success_pending_admin'' 0 0])"
    by (simp add: user_task_transaction_def get_task_def scene_def mute_def calm_def
          save_response_def)
  have 11: "admin_moderation_transaction mute CB_ADMIN_CONFIRM 1 100
      (scene ''success_pending_admin'' 0 0) =
     (Inl (TelegramFailure TelegramError), [scene ''confirmed'' 1 0])"
    by (simp add: admin_moderation_transaction_def get_response_def get_user_def scene_def
          mute_def calm_def save_user_def save_response_def then_exit_def announce_def)
  have 12: "admin_moderation_transaction mute CB_ADMIN_REJECT 1 100
      (scene ''success_pending_admin'' 0 0) =
     (Inl (TelegramFailure TelegramError), [scene ''rejected'' 0 1])"
    by (simp add: admin_moderation_transaction_def get_response_def get_user_def scene_def
          mute_def calm_def save_user_def save_response_def then_exit_def announce_def
          CB_ADMIN_CONFIRM_def CB_ADMIN_REJECT_def)
  have 13: "admin_slyot_transaction mute CB_ADMIN_MARK_SLYOT 1 100 (scene ''confirmed'' 1 0)
      Map.empty = ((Inl (TelegramFailure TelegramError), [scene ''slyot'' 0 1]), [1 \<mapsto> 300])"
    by (simp add: admin_slyot_transaction_def get_response_def get_user_def scene_def
          mute_def calm_def save_user_def save_response_def then_exit_def announce_def
          set_slyot_cancel_timer_def)
  have 14: "admin_slyot_transaction mute CB_ADMIN_CANCEL_SLYOT 1 100 (scene ''slyot'' 0 1)
      [1 \<mapsto> 300] = ((Inl (TelegramFailure TelegramError), [scene ''confirmed'' 1 0]), Map.empty)"
    by (simp add: admin_slyot_transaction_def get_response_def get_user_def scene_def
          mute_def calm_def save_user_def save_response_def then_exit_def announce_def
          check_slyot_cancel_timer_def clear_slyot_cancel_timer_def
          CB_ADMIN_MARK_SLYOT_def CB_ADMIN_CANCEL_SLYOT_def)
  show ?thesis using 1 2 3 4 5 6 7 8 9 10 11 12 13 14 by blast
qed

section \<open>What a unit of work commits\<close>

lemma fold_max_ge: "(m::int) \<le> fold max xs m"
  by (induction xs arbitrary: m) (auto intro: order_trans [OF max.cobounded2])

lemma fold_max_upper: "(x::int) \<in> set xs \<Longrightarrow> x \<le> fold max xs m"
proof (induction xs arbitrary: m)
  case Nil
  then show ?case by simp
next
  case (Cons a xs)
  show ?case
  proof (cases "x = a")
    case True
    have "a \<le> max a m" by simp
    also have "\<dots> \<le> fold max xs (max a m)" by (rule fold_max_ge)
    finally show ?thesis using True by simp
  next
    case False
    with Cons.prems have "x \<in> set xs" by simp
    from Cons.IH [OF this] show ?thesis by simp
  qed
qed

lemma next_id_fresh: "next_id ids \<notin> set ids"
proof
  assume "next_id ids \<in> set ids"
  from fold_max_upper [OF this, of 0] show False by (simp add: next_id_def)
qed

lemma add_response_distinct:
  "distinct (map rid (responses d)) \<Longrightarrow> distinct (map rid (responses (add_response uid t st m d)))"
  using next_id_fresh [of "map rid (responses d)"] by (simp add: add_response_def)

lemma loop_distinct_rids:
  "distinct (map rid (responses wdb)) \<Longrightarrow>
   distinct (map rid (responses (fst (send_to_users env t us (wdb, s, f)))))"
proof (induction us arbitrary: wdb s f)
  case Nil
  then show ?case by simp
next
  case (Cons u us)
  have 1: "distinct (map rid (responses (fst (send_to_users env t us
      (add_response uid t st m wdb, s', f')))))" for uid st m s' f'
    by (rule Cons.IH) (rule add_response_distinct [OF Cons.prems])
  have 2: "distinct (map rid (responses (fst (send_to_users env t us (save_user v wdb, s', f')))))"
    for v s' f'
    by (rule Cons.IH) (use Cons.prems in \<open>simp add: save_user_def\<close>)
  have 3: "distinct (map rid (responses (fst (send_to_users env t us (wdb, s', f')))))" for s' f'
    by (rule Cons.IH) (rule Cons.prems)
  show ?case using 1 2 3 by (simp split: sum.splits failure.splits)
qed

text \<open>What a broadcast commits, if anything.\<close>

lemma send_photo_history:
  "snd (send_photo_execute env bot_data photo a db) = [] \<or>
   (\<exists>p. snd (send_photo_execute env bot_data photo a db) =
      [fst (send_to_users env (next_id (map tid (tasks db))) (filter is_active (users db))
              (add_task a p db, 0, 0))])"
proof -
  have users: "users (add_task a p db) = users db" for p by (simp add: add_task_def)
  show ?thesis
  proof (cases photo)
    case None
    then show ?thesis by (simp add: send_photo_execute_def)
  next
    case (Some p)
    let ?loop = "send_to_users env (next_id (map tid (tasks db))) (filter is_active (users db))
              (add_task a p db, 0, 0)"
    obtain w s f where loop: "?loop = (w, s, f)" by (metis prod_cases3)
    then have w: "w = fst ?loop" by simp
    have empty: "filter is_active (users db) = [] \<Longrightarrow> w = add_task a p db"
      using loop by simp
    have "snd (send_photo_execute env bot_data photo a db) = [] \<or>
        snd (send_photo_execute env bot_data photo a db) = [w]"
      using Some loop empty
      by (auto simp: send_photo_execute_def send_photo_transaction_def Let_def users
            split: option.splits if_splits)
    then show ?thesis unfolding w by blast
  qed
qed

lemma start_history:
  "snd (start env uid db) = [] \<or>
   get_user db uid = None \<and>
   snd (start env uid db) =
     [db\<lparr>users := users db @
         [\<lparr>telegram_id = uid, is_active = True, success_count = 0, fail_count = 0\<rparr>]\<rparr>]"
  by (auto simp: start_def split: option.splits)

lemma toggle_history:
  "snd (toggle_user_bot_status env b uid db) = [] \<or>
   (\<exists>u. get_user db uid = Some u \<and>
      snd (toggle_user_bot_status env b uid db) = [save_user (u\<lparr>is_active := b\<rparr>) db])"
  by (auto simp: toggle_user_bot_status_def split: option.splits)

lemma loop_new_rows:
  "\<exists>new. responses (fst (send_to_users env t us (wdb, s, f))) = responses wdb @ new \<and>
     (\<forall>r \<in> set new. status r = ''pending_user'' \<and> user_telegram_id r \<in> telegram_id ` set us)"
proof (induction us arbitrary: wdb s f)
  case Nil
  then show ?case by simp
next
  case (Cons u us)
  let ?goal = "\<lambda>w. \<exists>new. responses w = responses wdb @ new \<and>
     (\<forall>r \<in> set new. status r = ''pending_user'' \<and>
        user_telegram_id r \<in> telegram_id ` set (u # us))"
  have same: "?goal (fst (send_to_users env t us (w, s', f')))"
    if "responses w = responses wdb" for w s' f'
  proof -
    from Cons.IH [of w s' f'] obtain new where
      "responses (fst (send_to_users env t us (w, s', f'))) = responses w @ new"
      "\<forall>r \<in> set new. status r = ''pending_user'' \<and> user_telegram_id r \<in> telegram_id ` set us"
      by blast
    with that show ?thesis by auto
  qed
  have added: "?goal (fst (send_to_users env t us
      (add_response (telegram_id u) t ''pending_user'' m wdb, s', f')))" for m s' f'
  proof -
    let ?w = "add_response (telegram_id u) t ''pending_user'' m wdb"
    let ?row = "\<lparr>rid = next_id (map rid (responses wdb)), user_telegram_id = telegram_id u,
        task_id = t, status = ''pending_user'', moderation_message_id = None,
        user_message_id = Some m\<rparr>"
    from Cons.IH [of ?w s' f'] obtain new where
      new: "responses (fst (send_to_users env t us (?w, s', f'))) = responses ?w @ new"
      "\<forall>r \<in> set new. status r = ''pending_user'' \<and> user_telegram_id r \<in> telegram_id ` set us"
      by blast
    have "responses ?w = responses wdb @ [?row]" by (simp add: add_response_def)
    with new have "responses (fst (send_to_users env t us (?w, s', f'))) =
        responses wdb @ (?row # new)" by simp
    moreover have "\<forall>r \<in> set (?row # new). status r = ''pending_user'' \<and>
        user_telegram_id r \<in> telegram_id ` set (u # us)"
      using new(2) by auto
    ultimately show ?thesis by blast
  qed
  have saved: "responses (save_user v wdb) = responses wdb" for v
    by (simp add: save_user_def)
  show ?case
    using added same [OF saved] same [OF refl]
    by (simp split: sum.splits failure.splits)
qed

lemma moves_of_append:
  assumes "responses d' = responses d @ new" and "\<forall>r \<in> set new. status r = ''pending_user''"
  shows "moves E d d'"
  using assms by (simp add: moves_def list_all2_same list_all_iff)

lemma known_of_append:
  assumes "responses d' = responses d @ new" and "\<forall>r \<in> set new. status r = ''pending_user''"
    and "known d"
  shows "known d'"
  using assms by (auto simp: known_def list_all_iff)

lemma run_appends:
  "fst (run env e db store) = [] \<or>
   (\<exists>d' new. fst (run env e db store) = [d'] \<and> responses d' = responses db @ new \<and>
      (\<forall>r \<in> set new. status r = ''pending_user''))"
proof (cases e)
  case (SendTask bot_data photo a)
  from send_photo_history [of env bot_data photo a db]
  show ?thesis
  proof
    assume "snd (send_photo_execute env bot_data photo a db) = []"
    then show ?thesis using SendTask by simp
  next
    assume "\<exists>p. snd (send_photo_execute env bot_data photo a db) =
      [fst (send_to_users env (next_id (map tid (tasks db))) (filter is_active (users db))
              (add_task a p db, 0, 0))]"
    then obtain p where h: "snd (send_photo_execute env bot_data photo a db) =
      [fst (send_to_users env (next_id (map tid (tasks db))) (filter is_active (users db))
              (add_task a p db, 0, 0))]" by blast
    from loop_new_rows [of env "next_id (map tid (tasks db))" "filter is_active (users db)"
        "add_task a p db" 0 0]
    obtain new where "responses (fst (send_to_users env (next_id (map tid (tasks db)))
        (filter is_active (users db)) (add_task a p db, 0, 0))) = responses db @ new"
      "\<forall>r \<in> set new. status r = ''pending_user''"
      by (auto simp: add_task_def)
    with h SendTask show ?thesis by auto
  qed
next
  case (Answer callback_data uid)
  then show ?thesis by (simp add: answer_commits_nothing)
next
  case (Moderate callback_data a)
  then show ?thesis by (simp add: moderation_commits_nothing)
next
  case (Slyot callback_data a)
  then show ?thesis by (simp add: slyot_commits_nothing)
next
  case (Start uid)
  from start_history [of env uid db] show ?thesis
  proof
    assume "snd (start env uid db) = []"
    then show ?thesis using Start by simp
  next
    assume "get_user db uid = None \<and> snd (start env uid db) =
     [db\<lparr>users := users db @
         [\<lparr>telegram_id = uid, is_active = True, success_count = 0, fail_count = 0\<rparr>]\<rparr>]"
    then show ?thesis using Start by simp
  qed
next
  case (Toggle b uid)
  from toggle_history [of env b uid db] show ?thesis
  proof
    assume "snd (toggle_user_bot_status env b uid db) = []"
    then show ?thesis using Toggle by simp
  next
    assume "\<exists>u. get_user db uid = Some u \<and>
      snd (toggle_user_bot_status env b uid db) = [save_user (u\<lparr>is_active := b\<rparr>) db]"
    then show ?thesis using Toggle by (auto simp: save_user_def)
  qed
next
  case (Elapse n)
  then show ?thesis by simp
qed

lemma execute_moves:
  "successively (moves E) (db # fst (execute evs db store))"
proof (induction evs arbitrary: db store)
  case Nil
  then show ?case by simp
next
  case (Cons x evs)
  obtain env e where x: "x = (env, e)" by (cases x)
  obtain h store' where r: "run env e db store = (h, store')" by (cases "run env e db store")
  obtain h' store'' where ex: "execute evs (final db h) store' = (h', store'')"
    by (cases "execute evs (final db h) store'")
  have all: "fst (execute (x # evs) db store) = h @ h'" by (simp add: x r ex)
  have ih: "successively (moves E) (final db h # h')"
    using Cons.IH [of "final db h" store'] ex by simp
  from run_appends [of env e db store] r
  consider "h = []" | d' new where "h = [d']" "responses d' = responses db @ new"
      "\<forall>r \<in> set new. status r = ''pending_user''"
    by auto
  then show ?case
  proof cases
    case 1
    then show ?thesis using ih all by (simp add: final_def)
  next
    case 2
    have "moves E db d'" using 2(2,3) by (rule moves_of_append)
    then show ?thesis using ih all 2(1) by (simp add: final_def)
  qed
qed

lemma execute_known:
  "known db \<Longrightarrow> list_all known (fst (execute evs db store))"
proof (induction evs arbitrary: db store)
  case Nil
  then show ?case by simp
next
  case (Cons x evs)
  obtain env e where x: "x = (env, e)" by (cases x)
  obtain h store' where r: "run env e db store = (h, store')" by (cases "run env e db store")
  obtain h' store'' where ex: "execute evs (final db h) store' = (h', store'')"
    by (cases "execute evs (final db h) store'")
  have all: "fst (execute (x # evs) db store) = h @ h'" by (simp add: x r ex)
  from run_appends [of env e db store] r
  consider "h = []" | d' new where "h = [d']" "responses d' = responses db @ new"
      "\<forall>r \<in> set new. status r = ''pending_user''"
    by auto
  then show ?case
  proof cases
    case 1
    then show ?thesis using Cons.IH [OF Cons.prems, of store'] ex all by (simp add: final_def)
  next
    case 2
    have k: "known d'" using 2(2,3) Cons.prems by (rule known_of_append)
    then show ?thesis using Cons.IH [OF k, of store'] ex all 2(1) by (simp add: final_def)
  qed
qed

lemma tally_append_pending:
  assumes "responses d' = responses d @ new"
    and "\<forall>r \<in> set new. status r = ''pending_user''"
    and "''pending_user'' \<notin> set sts"
  shows "tally d' uid sts = tally d uid sts"
proof -
  have "filter (\<lambda>r. user_telegram_id r = uid \<and> status r \<in> set sts) new = []"
    using assms(2,3) by (auto simp: filter_empty_conv)
  then show ?thesis using assms(1) by (simp add: tally_def)
qed

lemma counters_ok_counters:
  "counters_ok d \<longleftrightarrow>
     list_all (\<lambda>(i, s, f). s = tally d i [''confirmed''] \<and> f = tally d i [''rejected'', ''slyot''])
       (map counters (users d))"
  by (simp add: counters_ok_def counters_def list_all_iff)

lemma grown_consistent:
  assumes inv: "keys_ok d" "counters_ok d"
    and us: "map counters (users d') = map counters (users d)"
    and rs: "responses d' = responses d @ new"
    and new: "\<forall>r \<in> set new. status r = ''pending_user'' \<and>
                user_telegram_id r \<in> set (map telegram_id (users d))"
    and dist: "distinct (map rid (responses d'))"
  shows "keys_ok d' \<and> counters_ok d'"
proof -
  have "map (fst \<circ> counters) (users d') = map (fst \<circ> counters) (users d)"
    using us by (metis map_map)
  moreover have "fst \<circ> counters = telegram_id" by (auto simp: counters_def)
  ultimately have ids: "map telegram_id (users d') = map telegram_id (users d)" by simp
  have pend: "\<forall>r \<in> set new. status r = ''pending_user''" using new by blast
  have t1: "tally d' i [''confirmed''] = tally d i [''confirmed'']" for i
    using rs pend by (rule tally_append_pending) simp
  have t2: "tally d' i [''rejected'', ''slyot''] = tally d i [''rejected'', ''slyot'']" for i
    using rs pend by (rule tally_append_pending) simp
  have k: "keys_ok d'"
    using inv(1) new dist unfolding keys_ok_def ids rs by (auto simp: list_all_iff)
  have c: "counters_ok d'"
    using inv(2) unfolding counters_ok_counters us t1 t2 .
  from k c show ?thesis ..
qed

lemma save_user_counters:
  assumes "get_user db uid = Some u" and "distinct (map telegram_id (users db))"
  shows "map counters (users (save_user (u\<lparr>is_active := b\<rparr>) db)) = map counters (users db)"
proof -
  have u_in: "u \<in> set (users db)"
    using assms(1) unfolding get_user_def by (auto simp: find_Some_iff)
  have same: "v = u" if "telegram_id v = telegram_id u" "v \<in> set (users db)" for v
    using assms(2) u_in that by (meson distinct_map inj_onD)
  have "counters (if telegram_id v = telegram_id u then u\<lparr>is_active := b\<rparr> else v) = counters v"
    if "v \<in> set (users db)" for v
    using same [OF _ that] by (auto simp: counters_def)
  then show ?thesis by (simp add: save_user_def)
qed

lemma toggle_consistent:
  assumes "keys_ok db" "counters_ok db" "get_user db uid = Some u"
  shows "keys_ok (save_user (u\<lparr>is_active := b\<rparr>) db) \<and>
         counters_ok (save_user (u\<lparr>is_active := b\<rparr>) db)"
proof (rule grown_consistent [OF assms(1,2), where new = "[]"])
  show "map counters (users (save_user (u\<lparr>is_active := b\<rparr>) db)) = map counters (users db)"
    using assms(3) assms(1) by (intro save_user_counters) (simp_all add: keys_ok_def)
  show "responses (save_user (u\<lparr>is_active := b\<rparr>) db) = responses db @ []"
    by (simp add: save_user_def)
  show "\<forall>r \<in> set []. status r = ''pending_user'' \<and>
          user_telegram_id r \<in> set (map telegram_id (users db))" by simp
  show "distinct (map rid (responses (save_user (u\<lparr>is_active := b\<rparr>) db)))"
    using assms(1) by (simp add: save_user_def keys_ok_def)
qed

lemma start_consistent:
  assumes "keys_ok db" "counters_ok db" "get_user db uid = None"
  shows "keys_ok (db\<lparr>users := users db @
            [\<lparr>telegram_id = uid, is_active = True, success_count = 0, fail_count = 0\<rparr>]\<rparr>) \<and>
         counters_ok (db\<lparr>users := users db @
            [\<lparr>telegram_id = uid, is_active = True, success_count = 0, fail_count = 0\<rparr>]\<rparr>)"
proof -
  let ?d = "db\<lparr>users := users db @
            [\<lparr>telegram_id = uid, is_active = True, success_count = 0, fail_count = 0\<rparr>]\<rparr>"
  have fresh: "uid \<notin> set (map telegram_id (users db))"
    using assms(3) unfolding get_user_def by (auto simp: find_None_iff)
  have none: "filter (\<lambda>r. user_telegram_id r = uid \<and> status r \<in> set sts) (responses db) = []"
    for sts
    using assms(1) fresh by (auto simp: keys_ok_def list_all_iff filter_empty_conv)
  have t: "tally ?d i sts = tally db i sts" for i sts by (simp add: tally_def)
  have z: "tally db uid sts = 0" for sts by (simp add: tally_def none)
  have k: "keys_ok ?d" using assms(1) fresh by (auto simp: keys_ok_def list_all_iff)
  have c: "counters_ok ?d" using assms(2) by (simp add: counters_ok_def t z)
  from k c show ?thesis ..
qed

lemma broadcast_consistent:
  assumes "keys_ok db" "counters_ok db"
  shows "keys_ok (fst (send_to_users env t (filter is_active (users db)) (add_task a p db, 0, 0))) \<and>
         counters_ok (fst (send_to_users env t (filter is_active (users db)) (add_task a p db, 0, 0)))"
proof -
  let ?us = "filter is_active (users db)"
  let ?w = "add_task a p db"
  let ?d = "fst (send_to_users env t ?us (?w, 0, 0))"
  have w: "users ?w = users db" "responses ?w = responses db" by (simp_all add: add_task_def)
  have dist: "distinct (map telegram_id (users db))" using assms(1) by (simp add: keys_ok_def)
  have "users ?d =
     map (\<lambda>v. if v \<in> set ?us \<and> permanent env v then v\<lparr>is_active := False\<rparr> else v) (users ?w)"
    by (rule loop_users) (simp_all add: w dist distinct_map_filter)
  then have us: "map counters (users ?d) = map counters (users db)"
    by (simp add: w counters_def)
  from loop_new_rows [of env t ?us ?w 0 0] obtain new where
    new: "responses ?d = responses db @ new"
      "\<forall>r \<in> set new. status r = ''pending_user'' \<and> user_telegram_id r \<in> telegram_id ` set ?us"
    unfolding w by blast
  have new': "\<forall>r \<in> set new. status r = ''pending_user'' \<and>
      user_telegram_id r \<in> set (map telegram_id (users db))"
    using new(2) by auto
  have d: "distinct (map rid (responses ?d))"
    by (rule loop_distinct_rids) (use assms(1) in \<open>simp add: w keys_ok_def\<close>)
  show ?thesis using assms us new(1) new' d by (rule grown_consistent)
qed

lemma run_consistent:
  assumes "keys_ok db" "counters_ok db"
  shows "list_all (\<lambda>d. keys_ok d \<and> counters_ok d) (fst (run env e db store))"
proof (cases e)
  case (SendTask bot_data photo a)
  from send_photo_history [of env bot_data photo a db]
  show ?thesis
  proof
    assume "snd (send_photo_execute env bot_data photo a db) = []"
    then show ?thesis using SendTask by simp
  next
    assume "\<exists>p. snd (send_photo_execute env bot_data photo a db) =
      [fst (send_to_users env (next_id (map tid (tasks db))) (filter is_active (users db))
              (add_task a p db, 0, 0))]"
    then obtain p where "snd (send_photo_execute env bot_data photo a db) =
      [fst (send_to_users env (next_id (map tid (tasks db))) (filter is_active (users db))
              (add_task a p db, 0, 0))]" by blast
    then show ?thesis using SendTask broadcast_consistent [OF assms] by simp
  qed
next
  case (Answer callback_data uid)
  then show ?thesis by (simp add: answer_commits_nothing)
next
  case (Moderate callback_data a)
  then show ?thesis by (simp add: moderation_commits_nothing)
next
  case (Slyot callback_data a)
  then show ?thesis by (simp add: slyot_commits_nothing)
next
  case (Start uid)
  from start_history [of env uid db] show ?thesis
  proof
    assume "snd (start env uid db) = []"
    then show ?thesis using Start by simp
  next
    assume "get_user db uid = None \<and> snd (start env uid db) =
     [db\<lparr>users := users db @
         [\<lparr>telegram_id = uid, is_active = True, success_count = 0, fail_count = 0\<rparr>]\<rparr>]"
    then show ?thesis using Start start_consistent [OF assms, of uid] by simp
  qed
next
  case (Toggle b uid)
  from toggle_history [of env b uid db] show ?thesis
  proof
    assume "snd (toggle_user_bot_status env b uid db) = []"
    then show ?thesis using Toggle by simp
  next
    assume "\<exists>u. get_user db uid = Some u \<and>
      snd (toggle_user_bot_status env b uid db) = [save_user (u\<lparr>is_active := b\<rparr>) db]"
    then obtain u where "get_user db uid = Some u"
      "snd (toggle_user_bot_status env b uid db) = [save_user (u\<lparr>is_active := b\<rparr>) db]" by blast
    then show ?thesis using Toggle toggle_consistent [OF assms, of uid u b] by simp
  qed
next
  case (Elapse n)
  then show ?thesis by simp
qed

lemma final_consistent:
  assumes "keys_ok db \<and> counters_ok db" "list_all (\<lambda>d. keys_ok d \<and> counters_ok d) h"
  shows "keys_ok (final db h) \<and> counters_ok (final db h)"
proof (cases "h = []")
  case True
  then show ?thesis using assms(1) by (simp add: final_def)
next
  case False
  then have "final db h = last h" by (simp add: final_def)
  moreover have "last h \<in> set h" using False by simp
  ultimately show ?thesis using assms(2) by (simp add: list_all_iff)
qed

lemma execute_consistent:
  "keys_ok db \<Longrightarrow> counters_ok db \<Longrightarrow>
   list_all (\<lambda>d. keys_ok d \<and> counters_ok d) (fst (execute evs db store))"
proof (induction evs arbitrary: db store)
  case Nil
  then show ?case by simp
next
  case (Cons x evs)
  obtain env e where x: "x = (env, e)" by (cases x)
  obtain h store' where r: "run env e db store = (h, store')" by (cases "run env e db store")
  obtain h' store'' where ex: "execute evs (final db h) store' = (h', store'')"
    by (cases "execute evs (final db h) store'")
  have all: "fst (execute (x # evs) db store) = h @ h'" by (simp add: x r ex)
  have h: "list_all (\<lambda>d. keys_ok d \<and> counters_ok d) h"
    using run_consistent [OF Cons.prems, of env e store] r by simp
  have f: "keys_ok (final db h) \<and> counters_ok (final db h)"
    using Cons.prems h by (intro final_consistent) simp_all
  have "list_all (\<lambda>d. keys_ok d \<and> counters_ok d) h'"
    using Cons.IH [of "final db h" store'] f ex by simp
  with h all show ?case by simp
qed

lemma three_users_consistent: "keys_ok three_users \<and> counters_ok three_users"
  by (simp add: keys_ok_def counters_ok_def tally_def three_users_def fresh_user_def)

lemma busy_day:
  "length (fst (execute
      [(blocked_by_2, SendTask Map.empty (Some ''photo'') 100),
       (calm, Answer (user_task_button ''1'') 1),
       (calm, Moderate (admin_confirm_button ''1'') 100),
       (calm, Slyot (admin_slyot_button ''1'' False) 100),
       (calm, Start 4),
       (calm, Toggle False 1)] three_users Map.empty)) = 3"
  by code_simp

section \<open>What a transaction block commits\<close>

text \<open>
  A transaction block that moves a response to another status and the counters of its
  user with it keeps the keys unique and the counters equal to the tallies, and the move
  is along an edge of the table.
\<close>

lemma count_after_replace:
  assumes "distinct xs" "r \<in> set xs"
  shows "int (length (filter P (map (\<lambda>q. if q = r then r' else q) xs))) =
         int (length (filter P xs)) + (if P r' then 1 else 0) - (if P r then 1 else 0)"
  using assms
proof (induction xs)
  case Nil
  then show ?case by simp
next
  case (Cons x xs)
  show ?case
  proof (cases "x = r")
    case True
    then have "r \<notin> set xs" using Cons.prems(1) by simp
    then have "map (\<lambda>q. if q = r then r' else q) xs = xs" by (induction xs) auto
    then show ?thesis using True by (cases "P r'"; cases "P r") simp_all
  next
    case False
    then have "r \<in> set xs" using Cons.prems(2) by simp
    then have "int (length (filter P (map (\<lambda>q. if q = r then r' else q) xs))) =
         int (length (filter P xs)) + (if P r' then 1 else 0) - (if P r then 1 else 0)"
      using Cons.IH Cons.prems(1) by simp
    then show ?thesis using False by (cases "P x") simp_all
  qed
qed

lemma save_response_rows:
  assumes "distinct (map rid (responses db))" "r \<in> set (responses db)" "rid r' = rid r"
  shows "responses (save_response r' db) = map (\<lambda>q. if q = r then r' else q) (responses db)"
proof -
  have "q = r" if "q \<in> set (responses db)" "rid q = rid r" for q
    using assms(1,2) that by (meson distinct_map inj_onD)
  then have "(if rid q = rid r' then r' else q) = (if q = r then r' else q)"
    if "q \<in> set (responses db)" for q
    using that assms(3) by auto
  then show ?thesis by (simp add: save_response_def)
qed

lemma tally_save_response:
  assumes "distinct (map rid (responses db))" "r \<in> set (responses db)"
  shows "tally (save_response (r\<lparr>status := st\<rparr>) db) uid sts =
         tally db uid sts +
           (if uid = user_telegram_id r
            then (if st \<in> set sts then 1 else 0) - (if status r \<in> set sts then 1 else 0)
            else 0)"
proof -
  have d: "distinct (responses db)" using assms(1) by (simp add: distinct_map)
  have rows: "responses (save_response (r\<lparr>status := st\<rparr>) db) =
      map (\<lambda>q. if q = r then r\<lparr>status := st\<rparr> else q) (responses db)"
    using assms by (intro save_response_rows) simp_all
  show ?thesis
    unfolding tally_def rows
    using count_after_replace [OF d assms(2),
        of "\<lambda>r. user_telegram_id r = uid \<and> status r \<in> set sts" "r\<lparr>status := st\<rparr>"]
    by auto
qed

lemma keys_save_response:
  assumes "keys_ok db" "r \<in> set (responses db)"
  shows "keys_ok (save_response (r\<lparr>status := st\<rparr>) db)"
proof -
  have rows: "responses (save_response (r\<lparr>status := st\<rparr>) db) =
      map (\<lambda>q. if q = r then r\<lparr>status := st\<rparr> else q) (responses db)"
    using assms by (intro save_response_rows) (simp_all add: keys_ok_def)
  have 1: "map rid (responses (save_response (r\<lparr>status := st\<rparr>) db)) = map rid (responses db)"
    unfolding rows by (induction "responses db") auto
  have 2: "users (save_response (r\<lparr>status := st\<rparr>) db) = users db"
    by (simp add: save_response_def)
  have 3: "list_all (\<lambda>q. user_telegram_id q \<in> set (map telegram_id (users db)))
      (responses (save_response (r\<lparr>status := st\<rparr>) db))"
    unfolding rows using assms by (auto simp: keys_ok_def list_all_iff)
  show ?thesis using assms(1) 1 2 3 by (simp add: keys_ok_def)
qed

lemma moved_consistent:
  assumes inv: "keys_ok db" "counters_ok db"
    and r: "r \<in> set (responses db)"
    and u: "get_user db (user_telegram_id r) = Some u"
    and u': "telegram_id u' = telegram_id u"
      "success_count u' = success_count u +
         ((if st = ''confirmed'' then 1 else 0) - (if status r = ''confirmed'' then 1 else 0))"
      "fail_count u' = fail_count u +
         ((if st \<in> set [''rejected'', ''slyot''] then 1 else 0) -
          (if status r \<in> set [''rejected'', ''slyot''] then 1 else 0))"
  shows "keys_ok (save_user u' (save_response (r\<lparr>status := st\<rparr>) db)) \<and>
         counters_ok (save_user u' (save_response (r\<lparr>status := st\<rparr>) db))"
proof -
  let ?d1 = "save_response (r\<lparr>status := st\<rparr>) db"
  let ?d2 = "save_user u' ?d1"
  have dr: "distinct (map rid (responses db))" and du: "distinct (map telegram_id (users db))"
    using inv(1) by (simp_all add: keys_ok_def)
  have u_in: "u \<in> set (users db)" and u_id: "telegram_id u = user_telegram_id r"
    using u unfolding get_user_def by (auto simp: find_Some_iff)
  have same: "v = u" if "v \<in> set (users db)" "telegram_id v = telegram_id u" for v
    using du u_in that by (meson distinct_map inj_onD)
  have k1: "keys_ok ?d1" using inv(1) r by (rule keys_save_response)
  have users2: "users ?d2 = map (\<lambda>v. if v = u then u' else v) (users db)"
    using same u'(1) by (auto simp: save_user_def save_response_def)
  have ids2: "map telegram_id (users ?d2) = map telegram_id (users db)"
    unfolding users2 using u'(1) by (induction "users db") auto
  have resp2: "responses ?d2 = responses ?d1" by (simp add: save_user_def)
  have k2: "keys_ok ?d2"
    using k1 ids2 resp2 by (simp add: keys_ok_def save_response_def)
  have t2: "tally ?d2 uid sts = tally ?d1 uid sts" for uid sts
    by (simp add: tally_def resp2)
  have c: "success_count v = tally ?d2 (telegram_id v) [''confirmed''] \<and>
           fail_count v = tally ?d2 (telegram_id v) [''rejected'', ''slyot'']"
    if v: "v \<in> set (users ?d2)" for v
  proof -
    from v obtain v0 where v0: "v0 \<in> set (users db)" "v = (if v0 = u then u' else v0)"
      unfolding users2 by auto
    have old: "success_count v0 = tally db (telegram_id v0) [''confirmed''] \<and>
               fail_count v0 = tally db (telegram_id v0) [''rejected'', ''slyot'']"
      using inv(2) v0(1) by (simp add: counters_ok_def list_all_iff)
    show ?thesis
    proof (cases "v0 = u")
      case True
      then have "v = u'" using v0(2) by simp
      then show ?thesis
        using old True u' u_id
        by (simp add: t2 tally_save_response [OF dr r])
    next
      case False
      then have "telegram_id v0 \<noteq> user_telegram_id r" using same [OF v0(1)] u_id by auto
      then show ?thesis
        using old False v0(2) by (simp add: t2 tally_save_response [OF dr r])
    qed
  qed
  have "counters_ok ?d2" unfolding counters_ok_def list_all_iff using c by blast
  with k2 show ?thesis ..
qed

lemma relabelled_consistent:
  assumes inv: "keys_ok db" "counters_ok db"
    and r: "r \<in> set (responses db)"
    and st: "st \<notin> set [''confirmed'', ''rejected'', ''slyot'']"
      "status r \<notin> set [''confirmed'', ''rejected'', ''slyot'']"
  shows "keys_ok (save_response (r\<lparr>status := st\<rparr>) db) \<and>
         counters_ok (save_response (r\<lparr>status := st\<rparr>) db)"
proof -
  have dr: "distinct (map rid (responses db))" using inv(1) by (simp add: keys_ok_def)
  have k: "keys_ok (save_response (r\<lparr>status := st\<rparr>) db)"
    using inv(1) r by (rule keys_save_response)
  have us: "users (save_response (r\<lparr>status := st\<rparr>) db) = users db"
    by (simp add: save_response_def)
  have "counters_ok (save_response (r\<lparr>status := st\<rparr>) db)"
    using inv(2) st unfolding counters_ok_def us
    by (auto simp: list_all_iff tally_save_response [OF dr r])
  with k show ?thesis ..
qed

lemma found_response: "get_response db i = Some r \<Longrightarrow> r \<in> set (responses db)"
  unfolding get_response_def by (auto simp: find_Some_iff)

lemma moderation_consistent:
  assumes "keys_ok db" "counters_ok db"
  shows "list_all (\<lambda>d. keys_ok d \<and> counters_ok d)
           (snd (admin_moderation_transaction env action i a db))"
proof (cases "get_response db i")
  case None
  then show ?thesis by (simp add: admin_moderation_transaction_def)
next
  case (Some r)
  note r = found_response [OF Some]
  show ?thesis
  proof (cases "get_user db (user_telegram_id r)")
    case None
    then show ?thesis using Some by (simp add: admin_moderation_transaction_def)
  next
    case u: (Some u)
    have confirm: "keys_ok (save_user (u\<lparr>success_count := success_count u + 1\<rparr>)
                     (save_response (r\<lparr>status := ''confirmed''\<rparr>) db)) \<and>
                   counters_ok (save_user (u\<lparr>success_count := success_count u + 1\<rparr>)
                     (save_response (r\<lparr>status := ''confirmed''\<rparr>) db))"
      if "status r = ''success_pending_admin''"
      using assms r u by (rule moved_consistent) (simp_all add: that)
    have reject: "keys_ok (save_user (u\<lparr>fail_count := fail_count u + 1\<rparr>)
                     (save_response (r\<lparr>status := ''rejected''\<rparr>) db)) \<and>
                   counters_ok (save_user (u\<lparr>fail_count := fail_count u + 1\<rparr>)
                     (save_response (r\<lparr>status := ''rejected''\<rparr>) db))"
      if "status r = ''success_pending_admin''"
      using assms r u by (rule moved_consistent) (simp_all add: that)
    show ?thesis
      using Some u confirm reject by (simp add: admin_moderation_transaction_def)
  qed
qed

lemma slyot_consistent:
  assumes "keys_ok db" "counters_ok db"
  shows "list_all (\<lambda>d. keys_ok d \<and> counters_ok d)
           (snd (fst (admin_slyot_transaction env action i a db store)))"
proof (cases "get_response db i")
  case None
  then show ?thesis by (simp add: admin_slyot_transaction_def)
next
  case (Some r)
  note r = found_response [OF Some]
  show ?thesis
  proof (cases "get_user db (user_telegram_id r)")
    case None
    then show ?thesis using Some by (simp add: admin_slyot_transaction_def)
  next
    case u: (Some u)
    have mark: "keys_ok (save_user (u\<lparr>success_count := success_count u - 1,
                                       fail_count := fail_count u + 1\<rparr>)
                     (save_response (r\<lparr>status := ''slyot''\<rparr>) db)) \<and>
                counters_ok (save_user (u\<lparr>success_count := success_count u - 1,
                                           fail_count := fail_count u + 1\<rparr>)
                     (save_response (r\<lparr>status := ''slyot''\<rparr>) db))"
      if "status r = ''confirmed''"
      using assms r u by (rule moved_consistent) (simp_all add: that)
    have cancel: "keys_ok (save_user (u\<lparr>fail_count := fail_count u - 1,
                                         success_count := success_count u + 1\<rparr>)
                     (save_response (r\<lparr>status := ''confirmed''\<rparr>) db)) \<and>
                counters_ok (save_user (u\<lparr>fail_count := fail_count u - 1,
                                           success_count := success_count u + 1\<rparr>)
                     (save_response (r\<lparr>status := ''confirmed''\<rparr>) db))"
      if "status r = ''slyot''"
      using assms r u by (rule moved_consistent) (simp_all add: that)
    show ?thesis
      using Some u mark cancel
      by (simp add: admin_slyot_transaction_def Let_def split: option.splits)
  qed
qed

lemma user_task_consistent:
  assumes "keys_ok db" "counters_ok db"
  shows "list_all (\<lambda>d. keys_ok d \<and> counters_ok d)
           (snd (user_task_transaction env action t uid db))"
proof -
  have one: "keys_ok (save_response (r\<lparr>status := ''success_pending_admin''\<rparr>) db) \<and>
             counters_ok (save_response (r\<lparr>status := ''success_pending_admin''\<rparr>) db)"
    if "filter (\<lambda>r. user_telegram_id r = uid \<and> task_id r = t) (responses db) = [r]"
      "status r = ''pending_user''" for r
  proof -
    have "r \<in> set (filter (\<lambda>r. user_telegram_id r = uid \<and> task_id r = t) (responses db))"
      using that(1) by simp
    then have "r \<in> set (responses db)" by simp
    with assms show ?thesis by (rule relabelled_consistent) (simp_all add: that(2))
  qed
  show ?thesis
    using one by (simp add: user_task_transaction_def split: list.splits option.splits)
qed

lemma moves_replace:
  assumes "distinct (map rid (responses db))" "r \<in> set (responses db)"
    and "responses d = responses (save_response (r\<lparr>status := st\<rparr>) db)"
    and "E (status r) st"
  shows "moves E db d"
proof -
  have rows: "responses d = map (\<lambda>q. if q = r then r\<lparr>status := st\<rparr> else q) (responses db)"
    unfolding assms(3) using assms(1,2) by (intro save_response_rows) simp_all
  show ?thesis
    unfolding moves_def rows using assms(4)
    by (simp add: list_all2_map2 list_all2_same)
qed

lemma moderation_moves:
  assumes "keys_ok db"
  shows "list_all (moves table_edge db) (snd (admin_moderation_transaction env action i a db))"
proof (cases "get_response db i")
  case None
  then show ?thesis by (simp add: admin_moderation_transaction_def)
next
  case (Some r)
  note r = found_response [OF Some]
  have dr: "distinct (map rid (responses db))" using assms by (simp add: keys_ok_def)
  have m: "moves table_edge db (save_user u' (save_response (r\<lparr>status := st\<rparr>) db))"
    if "table_edge (status r) st" for u' st
    using dr r _ that by (rule moves_replace) (simp add: save_user_def)
  show ?thesis
    using Some m
    by (simp add: admin_moderation_transaction_def table_edge_def split: option.splits)
qed

lemma slyot_moves:
  assumes "keys_ok db"
  shows "list_all (moves table_edge db)
           (snd (fst (admin_slyot_transaction env action i a db store)))"
proof (cases "get_response db i")
  case None
  then show ?thesis by (simp add: admin_slyot_transaction_def)
next
  case (Some r)
  note r = found_response [OF Some]
  have dr: "distinct (map rid (responses db))" using assms by (simp add: keys_ok_def)
  have m: "moves table_edge db (save_user u' (save_response (r\<lparr>status := st\<rparr>) db))"
    if "table_edge (status r) st" for u' st
    using dr r _ that by (rule moves_replace) (simp add: save_user_def)
  show ?thesis
    using Some m
    by (simp add: admin_slyot_transaction_def Let_def table_edge_def split: option.splits)
qed

lemma user_task_moves:
  assumes "keys_ok db"
  shows "list_all (moves table_edge db) (snd (user_task_transaction env action t uid db))"
proof -
  have dr: "distinct (map rid (responses db))" using assms by (simp add: keys_ok_def)
  have one: "moves table_edge db (save_response (r\<lparr>status := ''success_pending_admin''\<rparr>) db)"
    if "filter (\<lambda>r. user_telegram_id r = uid \<and> task_id r = t) (responses db) = [r]"
      "status r = ''pending_user''" for r
  proof -
    have "r \<in> set (filter (\<lambda>r. user_telegram_id r = uid \<and> task_id r = t) (responses db))"
      using that(1) by simp
    then have "r \<in> set (responses db)" by simp
    with dr show ?thesis by (rule moves_replace) (simp_all add: that(2) table_edge_def)
  qed
  show ?thesis
    using one by (simp add: user_task_transaction_def split: list.splits option.splits)
qed

lemma scenes_consistent:
  "keys_ok (scene ''success_pending_admin'' 0 0) \<and> counters_ok (scene ''success_pending_admin'' 0 0)"
  "keys_ok (scene ''confirmed'' 1 0) \<and> counters_ok (scene ''confirmed'' 1 0)"
  "keys_ok (scene ''pending_user'' 0 0)"
  by (simp_all add: keys_ok_def counters_ok_def tally_def scene_def)

lemma scenes_move:
  "snd (admin_moderation_transaction calm CB_ADMIN_CONFIRM 1 100
          (scene ''success_pending_admin'' 0 0)) = [scene ''confirmed'' 1 0]"
  "snd (fst (admin_slyot_transaction calm CB_ADMIN_MARK_SLYOT 1 100
          (scene ''confirmed'' 1 0) Map.empty)) = [scene ''slyot'' 0 1]"
  "snd (user_task_transaction calm CB_USER_TASK_SUCCESS 1 1 (scene ''pending_user'' 0 0)) =
     [scene ''success_pending_admin'' 0 0]"
  by (simp_all add: admin_moderation_transaction_def admin_slyot_transaction_def
        user_task_transaction_def get_response_def get_user_def get_task_def scene_def calm_def
        save_user_def save_response_def set_slyot_cancel_timer_def)

section \<open>Counters and statuses over sequences\<close>

text \<open>
  Claim C2. From a database with unique keys in which every user's \<^verbatim>\<open>success_count\<close> is
  the number of their responses in status \<^verbatim>\<open>confirmed\<close> and \<^verbatim>\<open>fail_count\<close> the number in
  \<^verbatim>\<open>rejected\<close> or \<^verbatim>\<open>slyot\<close>, every state committed by any sequence of units of work, in
  any environments, has unique keys and the same two equalities; and so has every state
  committed by a transaction block of the three callback handlers, for any action and id
  it is entered with: where a block moves a response into or out of a counted status,
  the counters move with it in the same commit.
\<close>

theorem counters_follow_statuses:
  "keys_ok db \<Longrightarrow> counters_ok db \<Longrightarrow>
   list_all (\<lambda>d. keys_ok d \<and> counters_ok d) (fst (execute evs db store)) \<and>
   list_all (\<lambda>d. keys_ok d \<and> counters_ok d)
     (snd (admin_moderation_transaction env action i a db)) \<and>
   list_all (\<lambda>d. keys_ok d \<and> counters_ok d)
     (snd (fst (admin_slyot_transaction env action i a db store))) \<and>
   list_all (\<lambda>d. keys_ok d \<and> counters_ok d)
     (snd (user_task_transaction env action t uid db))"
  using execute_consistent moderation_consistent slyot_consistent user_task_consistent
  by blast

text \<open>
  A broadcast that one recipient has blocked, presses of the three buttons on its
  response, a registration and an opt-out: three states are committed, all consistent.
  The moderation block entered with the confirm action, and the block of the slyot
  actions entered with the mark action: the counters 0 and 0 become 1 and 0, then 0 and
  1, with the status.
\<close>

theorem counters_follow_statuses_witness:
  "keys_ok three_users \<and> counters_ok three_users \<and>
   list_all (\<lambda>d. keys_ok d \<and> counters_ok d)
     (fst (execute
      [(blocked_by_2, SendTask Map.empty (Some ''photo'') 100),
       (calm, Answer (user_task_button ''1'') 1),
       (calm, Moderate (admin_confirm_button ''1'') 100),
       (calm, Slyot (admin_slyot_button ''1'' False) 100),
       (calm, Start 4),
       (calm, Toggle False 1)] three_users Map.empty)) \<and>
   length (fst (execute
      [(blocked_by_2, SendTask Map.empty (Some ''photo'') 100),
       (calm, Answer (user_task_button ''1'') 1),
       (calm, Moderate (admin_confirm_button ''1'') 100),
       (calm, Slyot (admin_slyot_button ''1'' False) 100),
       (calm, Start 4),
       (calm, Toggle False 1)] three_users Map.empty)) = 3 \<and>
   counters_ok (scene ''success_pending_admin'' 0 0) \<and>
   snd (admin_moderation_transaction calm CB_ADMIN_CONFIRM 1 100
          (scene ''success_pending_admin'' 0 0)) = [scene ''confirmed'' 1 0] \<and>
   counters_ok (scene ''confirmed'' 1 0) \<and>
   snd (fst (admin_slyot_transaction calm CB_ADMIN_MARK_SLYOT 1 100
          (scene ''confirmed'' 1 0) Map.empty)) = [scene ''slyot'' 0 1] \<and>
   counters_ok (scene ''slyot'' 0 1)"
  using counters_follow_statuses [where db = three_users and store = Map.empty and evs =
      "[(blocked_by_2, SendTask Map.empty (Some ''photo'') 100),
       (calm, Answer (user_task_button ''1'') 1),
       (calm, Moderate (admin_confirm_button ''1'') 100),
       (calm, Slyot (admin_slyot_button ''1'' False) 100),
       (calm, Start 4),
       (calm, Toggle False 1)]"]
    counters_follow_statuses [where db = "scene ''confirmed'' 1 0" and store = Map.empty
      and env = calm and action = CB_ADMIN_MARK_SLYOT and i = 1 and a = 100]
    three_users_consistent busy_day scenes_consistent scenes_move
  by simp

text \<open>
  Claim C3. Along the committed states of any sequence of units of work, from any
  database, every response keeps its place and key and its status stays or moves along
  an edge of the transition table, and new responses start in \<^verbatim>\<open>pending_user\<close>; if the
  statuses of the first database are among the five of the table, so are those of every
  committed state. From a database with unique keys the same holds of every state
  committed by a transaction block of the three callback handlers, for any action and id
  it is entered with.
\<close>

theorem status_follows_table:
  "successively (moves table_edge) (db # fst (execute evs db store)) \<and>
   (known db \<longrightarrow> list_all known (fst (execute evs db store))) \<and>
   (keys_ok db \<longrightarrow>
      list_all (moves table_edge db) (snd (user_task_transaction env action t uid db)) \<and>
      list_all (moves table_edge db) (snd (admin_moderation_transaction env action i a db)) \<and>
      list_all (moves table_edge db)
        (snd (fst (admin_slyot_transaction env action i a db store))))"
  by (simp add: execute_moves execute_known user_task_moves moderation_moves slyot_moves)

text \<open>
  The same sequence from the database of three recipients, and the block of the user's
  handler entered with the success action on a pending response.
\<close>

theorem status_follows_table_witness:
  "known three_users \<and>
   successively (moves table_edge) (three_users # fst (execute
      [(blocked_by_2, SendTask Map.empty (Some ''photo'') 100),
       (calm, Answer (user_task_button ''1'') 1),
       (calm, Moderate (admin_confirm_button ''1'') 100),
       (calm, Slyot (admin_slyot_button ''1'' False) 100),
       (calm, Start 4),
       (calm, Toggle False 1)] three_users Map.empty)) \<and>
   list_all known (fst (execute
      [(blocked_by_2, SendTask Map.empty (Some ''photo'') 100),
       (calm, Answer (user_task_button ''1'') 1),
       (calm, Moderate (admin_confirm_button ''1'') 100),
       (calm, Slyot (admin_slyot_button ''1'' False) 100),
       (calm, Start 4),
       (calm, Toggle False 1)] three_users Map.empty)) \<and>
   keys_ok (scene ''pending_user'' 0 0) \<and>
   snd (user_task_transaction calm CB_USER_TASK_SUCCESS 1 1 (scene ''pending_user'' 0 0)) =
     [scene ''success_pending_admin'' 0 0] \<and>
   moves table_edge (scene ''pending_user'' 0 0) (scene ''success_pending_admin'' 0 0)"
proof -
  have k: "known three_users" by (simp add: known_def three_users_def)
  show ?thesis
    using status_follows_table [where db = three_users and store = Map.empty and evs =
      "[(blocked_by_2, SendTask Map.empty (Some ''photo'') 100),
       (calm, Answer (user_task_button ''1'') 1),
       (calm, Moderate (admin_confirm_button ''1'') 100),
       (calm, Slyot (admin_slyot_button ''1'' False) 100),
       (calm, Start 4),
       (calm, Toggle False 1)]"]
      status_follows_table [where db = "scene ''pending_user'' 0 0" and env = calm
        and action = CB_USER_TASK_SUCCESS and t = 1 and uid = 1]
      k scenes_consistent(3) scenes_move(3)
    by simp
qed

section \<open>The buttons of the reversal\<close>

text \<open>
  Claim C5. The data of the cancel button, for any id, are refused at the decoding: an
  operator whose press was acknowledged gets \<^verbatim>\<open>ValueError\<close>, nothing is committed and
  the timers are as before. For response 1 in status \<^verbatim>\<open>slyot\<close> with its timer armed the
  press leaves the status and the timer, while the transaction block entered with
  \<^verbatim>\<open>CB_ADMIN_CANCEL_SLYOT\<close> would restore \<^verbatim>\<open>confirmed\<close>, move the counters and delete the
  key.
\<close>

theorem cancel_button_never_restores:
  "handle_admin_slyot_action env (admin_slyot_button id_text True) a db store =
     ((if a \<in> set (admins db)
       then (case answer_query env of None \<Rightarrow> Inl ValueError | Some f \<Rightarrow> Inl (TelegramFailure f))
       else Inr AccessDenied, []), store) \<and>
   status_of (scene ''slyot'' 0 1) 1 = Some ''slyot'' \<and>
   check_slyot_cancel_timer calm 1 [1 \<mapsto> 300] \<and>
   handle_admin_slyot_action calm (admin_slyot_button ''1'' True) 100 (scene ''slyot'' 0 1)
       [1 \<mapsto> 300] = ((Inl ValueError, []), [1 \<mapsto> 300]) \<and>
   admin_slyot_transaction calm CB_ADMIN_CANCEL_SLYOT 1 100 (scene ''slyot'' 0 1) [1 \<mapsto> 300] =
     ((Inr SlyotCanceled, [scene ''confirmed'' 1 0]), Map.empty)"
proof -
  have 1: "status_of (scene ''slyot'' 0 1) 1 = Some ''slyot''"
    by (simp add: status_of_def get_response_def scene_def)
  have 2: "check_slyot_cancel_timer calm 1 [1 \<mapsto> 300]"
    by (simp add: check_slyot_cancel_timer_def calm_def)
  have 3: "handle_admin_slyot_action calm (admin_slyot_button ''1'' True) 100 (scene ''slyot'' 0 1)
       [1 \<mapsto> 300] = ((Inl ValueError, []), [1 \<mapsto> 300])"
    by (simp add: slyot_button_raises scene_def calm_def)
  have 4: "admin_slyot_transaction calm CB_ADMIN_CANCEL_SLYOT 1 100 (scene ''slyot'' 0 1)
       [1 \<mapsto> 300] = ((Inr SlyotCanceled, [scene ''confirmed'' 1 0]), Map.empty)"
    by (simp add: admin_slyot_transaction_def get_response_def get_user_def scene_def calm_def
          CB_ADMIN_MARK_SLYOT_def CB_ADMIN_CANCEL_SLYOT_def CALLBACK_ADMIN_SLYOT_PREFIX_def
          check_slyot_cancel_timer_def clear_slyot_cancel_timer_def save_user_def
          save_response_def then_exit_def announce_def notify_user_def exit_commit_def)
  show ?thesis using slyot_button_raises 1 2 3 4 by blast
qed

text \<open>
  Claim C8. The data of the mark button, for any id, are refused at the decoding, with
  Redis or without: nothing is committed. For response 1 in status \<^verbatim>\<open>confirmed\<close> without
  a Redis client the press leaves the status, while the transaction block entered with
  \<^verbatim>\<open>CB_ADMIN_MARK_SLYOT\<close> would commit \<^verbatim>\<open>slyot\<close> and the counters with no key set.
  \<^verbatim>\<open>set_slyot_cancel_timer\<close> reports whether the key was set, and
  \<^verbatim>\<open>check_slyot_cancel_timer\<close> is true only with a client, an answer of the server and
  the key present.
\<close>

theorem mark_button_never_flags:
  "handle_admin_slyot_action env (admin_slyot_button id_text False) a db store =
     ((if a \<in> set (admins db)
       then (case answer_query env of None \<Rightarrow> Inl ValueError | Some f \<Rightarrow> Inl (TelegramFailure f))
       else Inr AccessDenied, []), store) \<and>
   status_of (scene ''confirmed'' 1 0) 1 = Some ''confirmed'' \<and>
   handle_admin_slyot_action redis_down (admin_slyot_button ''1'' False) 100
       (scene ''confirmed'' 1 0) Map.empty = ((Inl ValueError, []), Map.empty) \<and>
   admin_slyot_transaction redis_down CB_ADMIN_MARK_SLYOT 1 100 (scene ''confirmed'' 1 0) Map.empty =
     ((Inr MarkedSlyot, [scene ''slyot'' 0 1]), Map.empty) \<and>
   set_slyot_cancel_timer env i store =
     (if redis_client env \<and> setex_ok env \<and> 0 < SLYOT_CANCEL_TIMEOUT_SECONDS env
      then (True, store(i \<mapsto> SLYOT_CANCEL_TIMEOUT_SECONDS env)) else (False, store)) \<and>
   check_slyot_cancel_timer env i store = (redis_client env \<and> exists_ok env \<and> store i \<noteq> None)"
proof -
  have 1: "status_of (scene ''confirmed'' 1 0) 1 = Some ''confirmed''"
    by (simp add: status_of_def get_response_def scene_def)
  have 2: "handle_admin_slyot_action redis_down (admin_slyot_button ''1'' False) 100
       (scene ''confirmed'' 1 0) Map.empty = ((Inl ValueError, []), Map.empty)"
    by (simp add: slyot_button_raises scene_def calm_def redis_down_def)
  have 3: "admin_slyot_transaction redis_down CB_ADMIN_MARK_SLYOT 1 100 (scene ''confirmed'' 1 0)
       Map.empty = ((Inr MarkedSlyot, [scene ''slyot'' 0 1]), Map.empty)"
    by (simp add: admin_slyot_transaction_def get_response_def get_user_def scene_def calm_def
          redis_down_def set_slyot_cancel_timer_def save_user_def
          save_response_def then_exit_def announce_def notify_user_def exit_commit_def)
  have 4: "set_slyot_cancel_timer env i store =
     (if redis_client env \<and> setex_ok env \<and> 0 < SLYOT_CANCEL_TIMEOUT_SECONDS env
      then (True, store(i \<mapsto> SLYOT_CANCEL_TIMEOUT_SECONDS env)) else (False, store))"
    by (simp add: set_slyot_cancel_timer_def)
  have 5: "check_slyot_cancel_timer env i store =
     (redis_client env \<and> exists_ok env \<and> store i \<noteq> None)"
    by (simp add: check_slyot_cancel_timer_def)
  show ?thesis using slyot_button_raises 1 2 3 4 5 by blast
qed

text \<open>
  Claim C10. No callback of \<^verbatim>\<open>handle_admin_slyot_action\<close> changes the timers, commits
  anything or answers that the window has expired. With a store that refuses commits the
  press of the cancel button on response 1 leaves its armed key, while the transaction
  block entered with \<^verbatim>\<open>CB_ADMIN_CANCEL_SLYOT\<close> would delete the key and commit nothing,
  and entered again would answer that the window has expired.
\<close>

theorem cancel_never_consumes_window:
  "snd (handle_admin_slyot_action env callback_data a db store) = store \<and>
   snd (fst (handle_admin_slyot_action env callback_data a db store)) = [] \<and>
   fst (fst (handle_admin_slyot_action env callback_data a db store)) \<noteq> Inr SlyotCancelExpired \<and>
   handle_admin_slyot_action commit_fails (admin_slyot_button ''1'' True) 100 (scene ''slyot'' 0 1)
       [1 \<mapsto> 300] = ((Inl ValueError, []), [1 \<mapsto> 300]) \<and>
   admin_slyot_transaction commit_fails CB_ADMIN_CANCEL_SLYOT 1 100 (scene ''slyot'' 0 1)
       [1 \<mapsto> 300] = ((Inl SQLAlchemyError, []), Map.empty) \<and>
   admin_slyot_transaction calm CB_ADMIN_CANCEL_SLYOT 1 100 (scene ''slyot'' 0 1) Map.empty =
     ((Inr SlyotCancelExpired, []), Map.empty)"
proof -
  have 1: "handle_admin_slyot_action commit_fails (admin_slyot_button ''1'' True) 100
       (scene ''slyot'' 0 1) [1 \<mapsto> 300] = ((Inl ValueError, []), [1 \<mapsto> 300])"
    by (simp add: slyot_button_raises scene_def calm_def commit_fails_def)
  have 2: "admin_slyot_transaction commit_fails CB_ADMIN_CANCEL_SLYOT 1 100 (scene ''slyot'' 0 1)
       [1 \<mapsto> 300] = ((Inl SQLAlchemyError, []), Map.empty)"
    by (simp add: admin_slyot_transaction_def get_response_def get_user_def scene_def calm_def
          commit_fails_def
          CB_ADMIN_MARK_SLYOT_def CB_ADMIN_CANCEL_SLYOT_def CALLBACK_ADMIN_SLYOT_PREFIX_def
          check_slyot_cancel_timer_def clear_slyot_cancel_timer_def)
  have 3: "admin_slyot_transaction calm CB_ADMIN_CANCEL_SLYOT 1 100 (scene ''slyot'' 0 1)
       Map.empty = ((Inr SlyotCancelExpired, []), Map.empty)"
    by (simp add: admin_slyot_transaction_def get_response_def get_user_def scene_def calm_def
          CB_ADMIN_MARK_SLYOT_def CB_ADMIN_CANCEL_SLYOT_def CALLBACK_ADMIN_SLYOT_PREFIX_def
          check_slyot_cancel_timer_def replying_def exit_commit_def)
  show ?thesis
    using slyot_commits_nothing [of env callback_data a db store]
      slyot_never_expired [of env callback_data a db store] 1 2 3
    by blast
qed

end
